theory Spec2Isabelle
  imports Complex_Main "HOL-Library.Sublist" "HOL-Library.AList"
begin

section \<open>Values of the catalog\<close>

text \<open>
  \<^verbatim>\<open>scripts/ref_text_.py\<close> reads \<^verbatim>\<open>models.json\<close> with \<^verbatim>\<open>json.load\<close>. The value it
  gets is a tree of Python objects: \<^verbatim>\<open>None\<close>, \<^verbatim>\<open>bool\<close>, \<^verbatim>\<open>int\<close>, \<^verbatim>\<open>float\<close>, \<^verbatim>\<open>str\<close>,
  \<^verbatim>\<open>list\<close> and \<^verbatim>\<open>dict\<close> with \<^verbatim>\<open>str\<close> keys. A \<^verbatim>\<open>dict\<close> keeps its keys in insertion order,
  so it is an association list; lookups read the first pair with the key and
  \<^verbatim>\<open>d[k] = v\<close> is \<^const>\<open>AList.update\<close> (in place when the key is there, appended
  otherwise). A \<^verbatim>\<open>str\<close> is the list of its code points, here the code points below 256.
  No two objects of a loaded document are shared, so a reference to a nested
  object is the path that leads to it.
\<close>

datatype json =
    JNull
  | JBool bool
  | JInt int
  | JFloat rat
  | JStr string
  | JArr "json list"
  | JObj "(string \<times> json) list"

datatype error =
    TypeError
  | AttributeError
  | KeyError
  | JSONDecodeError
  | OSError
  | KeyboardInterrupt

text \<open>The truth value Python gives an object in \<^verbatim>\<open>if x:\<close> and \<^verbatim>\<open>not x\<close>.\<close>

fun truthy :: "json \<Rightarrow> bool" where
  "truthy JNull = False"
| "truthy (JBool b) = b"
| "truthy (JInt i) = (i \<noteq> 0)"
| "truthy (JFloat r) = (r \<noteq> 0)"
| "truthy (JStr s) = (s \<noteq> [])"
| "truthy (JArr xs) = (xs \<noteq> [])"
| "truthy (JObj kvs) = (kvs \<noteq> [])"

text \<open>
  \<^verbatim>\<open>k in x\<close> for a \<^verbatim>\<open>str\<close> \<^verbatim>\<open>k\<close>: a key of a dict, an element of a list, a substring of
  a string; any other object is not iterable and the test raises \<^verbatim>\<open>TypeError\<close>.
\<close>

fun py_in :: "string \<Rightarrow> json \<Rightarrow> error + bool" where
  "py_in k (JObj kvs) = Inr (k \<in> set (map fst kvs))"
| "py_in k (JArr xs) = Inr (JStr k \<in> set xs)"
| "py_in k (JStr s) = Inr (sublist k s)"
| "py_in k JNull = Inl TypeError"
| "py_in k (JBool b) = Inl TypeError"
| "py_in k (JInt i) = Inl TypeError"
| "py_in k (JFloat r) = Inl TypeError"

text \<open>\<^verbatim>\<open>x[k]\<close> for a \<^verbatim>\<open>str\<close> \<^verbatim>\<open>k\<close>: only a dict can be indexed by a string.\<close>

fun py_getitem :: "json \<Rightarrow> string \<Rightarrow> error + json" where
  "py_getitem (JObj kvs) k = (case map_of kvs k of None \<Rightarrow> Inl KeyError | Some v \<Rightarrow> Inr v)"
| "py_getitem JNull k = Inl TypeError"
| "py_getitem (JBool b) k = Inl TypeError"
| "py_getitem (JInt i) k = Inl TypeError"
| "py_getitem (JFloat r) k = Inl TypeError"
| "py_getitem (JStr s) k = Inl TypeError"
| "py_getitem (JArr xs) k = Inl TypeError"

text \<open>\<^verbatim>\<open>x.get(k)\<close>: a method of dicts only; a missing key gives \<^verbatim>\<open>None\<close>.\<close>

fun py_get :: "json \<Rightarrow> string \<Rightarrow> error + json" where
  "py_get (JObj kvs) k = Inr (case map_of kvs k of None \<Rightarrow> JNull | Some v \<Rightarrow> v)"
| "py_get JNull k = Inl AttributeError"
| "py_get (JBool b) k = Inl AttributeError"
| "py_get (JInt i) k = Inl AttributeError"
| "py_get (JFloat r) k = Inl AttributeError"
| "py_get (JStr s) k = Inl AttributeError"
| "py_get (JArr xs) k = Inl AttributeError"

section \<open>Enumerating the entries that need a reference text\<close>

text \<open>
  Lines 110 to 112 and 116 to 118 of \<^verbatim>\<open>main\<close>: the key is \<^verbatim>\<open>'models'\<close>, replaced by
  \<^verbatim>\<open>'modeles'\<close> when that one is \<^verbatim>\<open>in\<close> the object.
\<close>

definition root_key :: "json \<Rightarrow> error + string" where
  "root_key data =
     (case py_in ''modeles'' data of
        Inl e \<Rightarrow> Inl e
      | Inr b \<Rightarrow> Inr (if b then ''modeles'' else ''models''))"

definition models_key :: "json \<Rightarrow> error + string" where
  "models_key grp =
     (case py_in ''modeles'' grp of
        Inl e \<Rightarrow> Inl e
      | Inr b \<Rightarrow> Inr (if b then ''modeles'' else ''models''))"

text \<open>
  The guard \<^verbatim>\<open>k in x and isinstance(x[k], list)\<close> of lines 114 and 120, and the list
  the loop below it walks: no element when the guard is false.
\<close>

definition list_under :: "string \<Rightarrow> json \<Rightarrow> error + json list" where
  "list_under k x =
     (case py_in k x of
        Inl e \<Rightarrow> Inl e
      | Inr b \<Rightarrow>
          if b then
            (case py_getitem x k of
               Inl e \<Rightarrow> Inl e
             | Inr v \<Rightarrow> (case v of JArr xs \<Rightarrow> Inr xs | _ \<Rightarrow> Inr []))
          else Inr [])"

definition groups_of :: "json \<Rightarrow> error + json list" where
  "groups_of data =
     (case root_key data of Inl e \<Rightarrow> Inl e | Inr k \<Rightarrow> list_under k data)"

definition models_of :: "json \<Rightarrow> error + json list" where
  "models_of grp =
     (case models_key grp of Inl e \<Rightarrow> Inl e | Inr k \<Rightarrow> list_under k grp)"

text \<open>
  A loop that appends to \<^verbatim>\<open>tasks\<close> and stops the program at the first uncaught
  exception.
\<close>

fun collect :: "('a \<Rightarrow> error + 'b list) \<Rightarrow> 'a list \<Rightarrow> error + 'b list" where
  "collect f [] = Inr []"
| "collect f (x # xs) =
     (case f x of
        Inl e \<Rightarrow> Inl e
      | Inr ys \<Rightarrow> (case collect f xs of Inl e \<Rightarrow> Inl e | Inr zs \<Rightarrow> Inr (ys @ zs)))"

text \<open>Line 123: \<^verbatim>\<open>if not model.get('ref_text')\<close>.\<close>

definition needs_ref_text :: "json \<Rightarrow> error + bool" where
  "needs_ref_text model =
     (case py_get model ''ref_text'' of Inl e \<Rightarrow> Inl e | Inr v \<Rightarrow> Inr (\<not> truthy v))"

text \<open>
  Lines 115 to 124. A task is a reference to an entry of the loaded document, that
  is the index of its group and its index inside the group.
\<close>

definition group_tasks :: "nat \<Rightarrow> json \<Rightarrow> error + (nat \<times> nat) list" where
  "group_tasks gi grp =
     (case models_of grp of
        Inl e \<Rightarrow> Inl e
      | Inr ms \<Rightarrow>
          collect (\<lambda>(mi, model).
              case needs_ref_text model of
                Inl e \<Rightarrow> Inl e
              | Inr b \<Rightarrow> Inr (if b then [(gi, mi)] else []))
            (enumerate 0 ms))"

definition tasks_of :: "json \<Rightarrow> error + (nat \<times> nat) list" where
  "tasks_of data =
     (case groups_of data of
        Inl e \<Rightarrow> Inl e
      | Inr gs \<Rightarrow> collect (\<lambda>(gi, grp). group_tasks gi grp) (enumerate 0 gs))"

text \<open>The entry a task refers to, in the current document.\<close>

definition entry_at :: "json \<Rightarrow> nat \<times> nat \<Rightarrow> json option" where
  "entry_at data p =
     (case groups_of data of
        Inl e \<Rightarrow> None
      | Inr gs \<Rightarrow>
          if fst p < length gs then
            (case models_of (gs ! fst p) of
               Inl e \<Rightarrow> None
             | Inr ms \<Rightarrow> if snd p < length ms then Some (ms ! snd p) else None)
          else None)"

text \<open>
  \<^verbatim>\<open>model['ref_text'] = text\<close> (line 140), \<^verbatim>\<open>model\<close> being the entry a task refers to:
  the document with that one dict updated.
\<close>

fun map_key :: "string \<Rightarrow> (json \<Rightarrow> json) \<Rightarrow> json \<Rightarrow> json" where
  "map_key k f (JObj kvs) = JObj (AList.map_entry k f kvs)"
| "map_key k f x = x"

fun map_index :: "nat \<Rightarrow> (json \<Rightarrow> json) \<Rightarrow> json \<Rightarrow> json" where
  "map_index i f (JArr xs) = JArr (if i < length xs then xs[i := f (xs ! i)] else xs)"
| "map_index i f x = x"

fun setitem :: "string \<Rightarrow> json \<Rightarrow> json \<Rightarrow> json" where
  "setitem k v (JObj kvs) = JObj (AList.update k v kvs)"
| "setitem k v x = x"

definition assign_ref_text :: "json \<Rightarrow> nat \<times> nat \<Rightarrow> string \<Rightarrow> json" where
  "assign_ref_text data p text =
     (case root_key data of
        Inl e \<Rightarrow> data
      | Inr rk \<Rightarrow>
          map_key rk
            (map_index (fst p)
              (\<lambda>grp. case models_key grp of
                        Inl e \<Rightarrow> grp
                      | Inr mk \<Rightarrow>
                          map_key mk (map_index (snd p) (setitem ''ref_text'' (JStr text))) grp))
            data)"

section \<open>Strings and paths\<close>

text \<open>
  \<^verbatim>\<open>s.replace(old, new)\<close>: every occurrence of \<^verbatim>\<open>old\<close>, found from left to right
  without overlap, becomes \<^verbatim>\<open>new\<close>; with an empty \<^verbatim>\<open>old\<close>, \<^verbatim>\<open>new\<close> goes before every
  character and at the end.
\<close>

function replace_scan :: "string \<Rightarrow> string \<Rightarrow> string \<Rightarrow> string" where
  "replace_scan old new [] = []"
| "replace_scan old new (c # cs) =
     (if old \<noteq> [] \<and> prefix old (c # cs)
      then new @ replace_scan old new (drop (length old) (c # cs))
      else c # replace_scan old new cs)"
  by pat_completeness auto
termination
  by (relation "measure (\<lambda>(old, new, s). length s)") auto

definition py_replace :: "string \<Rightarrow> string \<Rightarrow> string \<Rightarrow> string" where
  "py_replace old new s =
     (if old = [] then new @ concat (map (\<lambda>c. c # new) s) else replace_scan old new s)"

text \<open>
  \<^verbatim>\<open>s.strip()\<close> removes the leading and trailing characters for which
  \<^verbatim>\<open>str.isspace\<close> holds; below 256 these are the code points 9 to 13, 28 to 32,
  133 and 160.
\<close>

definition py_isspace :: "char \<Rightarrow> bool" where
  "py_isspace c =
     (c \<in> set [CHR 0x09, CHR 0x0A, CHR 0x0B, CHR 0x0C, CHR 0x0D,
               CHR 0x1C, CHR 0x1D, CHR 0x1E, CHR 0x1F, CHR 0x20, CHR 0x85, CHR 0xA0])"

definition strip :: "string \<Rightarrow> string" where
  "strip s = rev (dropWhile py_isspace (rev (dropWhile py_isspace s)))"

text \<open>
  \<^verbatim>\<open>os.path.join(a, b)\<close> of \<^verbatim>\<open>posixpath\<close> for two strings: \<^verbatim>\<open>b\<close> alone when it starts
  with a slash, else \<^verbatim>\<open>a\<close> and \<^verbatim>\<open>b\<close> with one slash between them unless \<^verbatim>\<open>a\<close> is empty
  or ends with one.
\<close>

definition join :: "string \<Rightarrow> string \<Rightarrow> string" where
  "join a b =
     (if take 1 b = ''/'' then b
      else if a = [] \<or> last a = CHR ''/'' then a @ b
      else a @ ''/'' @ b)"

section \<open>The world around the script\<close>

text \<open>
  What the script does not decide is a parameter. \<open>transcribe env p path language\<close>
  is what \<^verbatim>\<open>whisper_model.transcribe(path, **options)\<close> does when it is called for
  the entry that the task \<open>p\<close> refers to: it returns a result whose \<^verbatim>\<open>'text'\<close> is a string, it raises an
  \<^verbatim>\<open>Exception\<close> (a result without a usable \<^verbatim>\<open>'text'\<close> counts as one, the same handler
  catches it), or \<^verbatim>\<open>KeyboardInterrupt\<close> is raised while it runs. \<open>commit_save env p\<close>
  and \<open>pause env p\<close> are what happens in \<^verbatim>\<open>save_models_json\<close> (line 145) and in
  \<^verbatim>\<open>time.sleep(0.5)\<close> (line 149) of that task, \<open>final_save env\<close> in the save of the
  \<^verbatim>\<open>KeyboardInterrupt\<close> handler (line 152). A \<^verbatim>\<open>KeyboardInterrupt\<close> raised outside the
  \<^verbatim>\<open>try\<close> block of the loop is not part of the model. The audio files do not change
  during a run.
\<close>

datatype whisper_outcome = WText string | WException | WInterrupt

datatype save_outcome = SaveOk | SaveOpenError | SaveWriteError | SaveInterrupt

datatype sleep_outcome = SleepOk | SleepInterrupt

record env =
  base_dir :: string
  path_exists :: "string \<Rightarrow> bool"
  model_loads :: bool
  transcribe :: "nat \<times> nat \<Rightarrow> string \<Rightarrow> json option \<Rightarrow> whisper_outcome"
  commit_save :: "nat \<times> nat \<Rightarrow> save_outcome"
  pause :: "nat \<times> nat \<Rightarrow> sleep_outcome"
  final_save :: save_outcome

text \<open>
  The catalog file: absent, a complete document, or \<open>Torn\<close> after
  \<^verbatim>\<open>open(path, 'w')\<close> has truncated it and the write did not finish.
\<close>

datatype disk = Absent | Torn | File json

datatype event =
    Begin "nat \<times> nat"
  | Transcribe "nat \<times> nat" string "json option"
  | Assign "nat \<times> nat" string
  | Save json save_outcome
  | Pause

record state =
  data :: json
  disk :: disk
  updated_count :: nat
  trace :: "event list"

text \<open>Lines 19 to 23: the new content of the file, and the exception raised if any.\<close>

fun save_models_json :: "save_outcome \<Rightarrow> json \<Rightarrow> disk \<Rightarrow> disk \<times> error option" where
  "save_models_json SaveOk d f = (File d, None)"
| "save_models_json SaveOpenError d f = (f, Some OSError)"
| "save_models_json SaveWriteError d f = (Torn, Some OSError)"
| "save_models_json SaveInterrupt d f = (Torn, Some KeyboardInterrupt)"

section \<open>Transcribing one entry\<close>

text \<open>
  Lines 25 to 42. The result is \<^verbatim>\<open>None\<close> or the stripped text; only
  \<^verbatim>\<open>KeyboardInterrupt\<close> leaves the function as an exception.
\<close>

definition transcribe_audio ::
  "env \<Rightarrow> nat \<times> nat \<Rightarrow> string \<Rightarrow> json \<Rightarrow> event list \<times> (error + string option)" where
  "transcribe_audio env p file_path language =
     (if \<not> path_exists env file_path then ([], Inr None)
      else
        let options = (if truthy language then Some language else None) in
        case transcribe env p file_path options of
          WText raw \<Rightarrow> ([Transcribe p file_path options], Inr (Some (strip raw)))
        | WException \<Rightarrow> ([Transcribe p file_path options], Inr None)
        | WInterrupt \<Rightarrow> ([Transcribe p file_path options], Inl KeyboardInterrupt))"

text \<open>Lines 60 to 76: the path handed to \<^verbatim>\<open>transcribe_audio\<close>.\<close>

definition audio_file_abs :: "env \<Rightarrow> string \<Rightarrow> string" where
  "audio_file_abs env audio_file_rel =
     (let primary = join (base_dir env) audio_file_rel in
      if \<not> path_exists env primary then
        if sublist ''models/'' audio_file_rel then
          (let alt_abs = join (base_dir env) (py_replace ''models/'' ''modeles/'' audio_file_rel)
           in if path_exists env alt_abs then alt_abs else primary)
        else if sublist ''modeles/'' audio_file_rel then
          (let alt_abs = join (base_dir env) (py_replace ''modeles/'' ''models/'' audio_file_rel)
           in if path_exists env alt_abs then alt_abs else primary)
        else primary
      else primary)"

text \<open>
  Lines 44 to 88. \<^verbatim>\<open>os.path.join\<close> raises \<^verbatim>\<open>TypeError\<close> when \<^verbatim>\<open>file\<close> is not a string.
\<close>

definition process_single_model ::
  "env \<Rightarrow> nat \<times> nat \<Rightarrow> json \<Rightarrow> event list \<times> (error + bool \<times> string option)" where
  "process_single_model env p model_entry =
     (case py_get model_entry ''ref_text'' of
        Inl e \<Rightarrow> ([], Inl e)
      | Inr ref_text \<Rightarrow>
          if truthy ref_text then ([], Inr (False, None))
          else
            (case py_get model_entry ''file'' of
               Inl e \<Rightarrow> ([], Inl e)
             | Inr file \<Rightarrow>
                 if \<not> truthy file then ([], Inr (False, None))
                 else
                   (case file of
                      JStr audio_file_rel \<Rightarrow>
                        (case py_get model_entry ''language'' of
                           Inl e \<Rightarrow> ([], Inl e)
                         | Inr language \<Rightarrow>
                             (case transcribe_audio env p (audio_file_abs env audio_file_rel) language of
                                (ev, Inl e) \<Rightarrow> (ev, Inl e)
                              | (ev, Inr None) \<Rightarrow> (ev, Inr (False, None))
                              | (ev, Inr (Some text)) \<Rightarrow>
                                  if text \<noteq> [] then (ev, Inr (True, Some text))
                                  else (ev, Inr (False, None))))
                    | _ \<Rightarrow> ([], Inl TypeError))))"

section \<open>The loop of main\<close>

datatype exit = CatalogMissing | ModelLoadFailed | Uncaught error | NoTasks | Done | Interrupted

text \<open>
  The body of the \<^verbatim>\<open>try\<close> block, lines 137 to 149, for the task \<open>p\<close>: the new state and the exception that left the block, if any. A task
  always refers to an entry; the first case is there to make the function total.
\<close>

definition try_body :: "env \<Rightarrow> nat \<times> nat \<Rightarrow> state \<Rightarrow> state \<times> error option" where
  "try_body env p s =
     (case entry_at (data s) p of
        None \<Rightarrow> (s, None)
      | Some model \<Rightarrow>
          (case process_single_model env p model of
             (ev, Inl e) \<Rightarrow> (s\<lparr>trace := trace s @ Begin p # ev\<rparr>, Some e)
           | (ev, Inr (updated, text)) \<Rightarrow>
               (let s1 = s\<lparr>trace := trace s @ Begin p # ev\<rparr> in
                case text of
                  None \<Rightarrow> (s1, None)
                | Some t \<Rightarrow>
                    if updated \<and> t \<noteq> [] then
                      (let s2 = s1\<lparr>data := assign_ref_text (data s1) p t,
                                   updated_count := updated_count s1 + 1,
                                   trace := trace s1 @ [Assign p t]\<rparr>;
                           saved = save_models_json (commit_save env p) (data s2) (disk s2);
                           s3 = s2\<lparr>disk := fst saved,
                                   trace := trace s2 @ [Save (data s2) (commit_save env p)]\<rparr>
                       in case snd saved of
                            Some e \<Rightarrow> (s3, Some e)
                          | None \<Rightarrow>
                              (let s4 = s3\<lparr>trace := trace s3 @ [Pause]\<rparr>
                               in case pause env p of
                                    SleepOk \<Rightarrow> (s4, None)
                                  | SleepInterrupt \<Rightarrow> (s4, Some KeyboardInterrupt)))
                    else (s1, None))))"

text \<open>
  Lines 150 to 155, the two handlers: \<^verbatim>\<open>KeyboardInterrupt\<close> saves and returns (an
  exception of that save is not caught by anything), every other exception is
  logged and the loop goes on.
\<close>

definition iteration :: "env \<Rightarrow> nat \<times> nat \<Rightarrow> state \<Rightarrow> exit option \<times> state" where
  "iteration env p s =
     (case try_body env p s of
        (s', None) \<Rightarrow> (None, s')
      | (s', Some e) \<Rightarrow>
          if e = KeyboardInterrupt then
            (let saved = save_models_json (final_save env) (data s') (disk s');
                 s'' = s'\<lparr>disk := fst saved, trace := trace s' @ [Save (data s') (final_save env)]\<rparr>
             in case snd saved of
                  None \<Rightarrow> (Some Interrupted, s'')
                | Some e' \<Rightarrow> (Some (Uncaught e'), s''))
          else (None, s'))"

fun process_tasks :: "env \<Rightarrow> (nat \<times> nat) list \<Rightarrow> state \<Rightarrow> exit \<times> state" where
  "process_tasks env [] s = (Done, s)"
| "process_tasks env (p # ps) s =
     (case iteration env p s of
        (None, s') \<Rightarrow> process_tasks env ps s'
      | (Some x, s') \<Rightarrow> (x, s'))"

text \<open>
  Lines 90 to 157. \<^verbatim>\<open>json.load\<close> of a torn file raises \<^verbatim>\<open>JSONDecodeError\<close>, which
  nothing catches, and so does an exception of the enumeration (lines 110 to 124).
  Before the load, \<open>data\<close> holds \<^verbatim>\<open>None\<close>.
\<close>

definition main :: "env \<Rightarrow> disk \<Rightarrow> exit \<times> state" where
  "main env models_json =
     (let s0 = \<lparr>data = JNull, disk = models_json, updated_count = 0, trace = []\<rparr> in
      case models_json of
        Absent \<Rightarrow> (CatalogMissing, s0)
      | Torn \<Rightarrow> (Uncaught JSONDecodeError, s0)
      | File loaded \<Rightarrow>
          (let s1 = s0\<lparr>data := loaded\<rparr> in
           if \<not> model_loads env then (ModelLoadFailed, s1)
           else
             case tasks_of loaded of
               Inl e \<Rightarrow> (Uncaught e, s1)
             | Inr tasks \<Rightarrow>
                 if length tasks = 0 then (NoTasks, s1)
                 else process_tasks env tasks s1))"

section \<open>Notions used to state the properties\<close>

text \<open>
  The tasks that one entry of a group contributes, the document order of two tasks,
  and the shape of a catalog whose enumeration raises nothing: a dict whose groups
  are dicts whose entries are dicts.
\<close>

definition pending_at :: "nat \<Rightarrow> nat \<times> json \<Rightarrow> (nat \<times> nat) list" where
  "pending_at gi = (\<lambda>(mi, model). if needs_ref_text model = Inr True then [(gi, mi)] else [])"

definition before :: "nat \<times> nat \<Rightarrow> nat \<times> nat \<Rightarrow> bool" where
  "before p q = (fst p < fst q \<or> (fst p = fst q \<and> snd p < snd q))"

fun is_dict :: "json \<Rightarrow> bool" where
  "is_dict (JObj kvs) = True"
| "is_dict x = False"

definition well_shaped :: "json \<Rightarrow> bool" where
  "well_shaped d =
     (is_dict d \<and>
      (case groups_of d of
         Inl e \<Rightarrow> False
       | Inr gs \<Rightarrow>
           list_all (\<lambda>g. is_dict g \<and>
                          (case models_of g of Inl e \<Rightarrow> False | Inr ms \<Rightarrow> list_all is_dict ms)) gs))"

text \<open>
  An entry is pending when line 123 selects it. The events of a run tell what
  happened to the catalog in memory and to the file: \<open>replay\<close> applies the
  assignments of a trace to a catalog, \<open>disk_after\<close> applies its saves to the file,
  \<open>assigned\<close> lists the entries it assigned to, and \<open>new_events\<close> are the events
  added between two states. A trace is \<open>orderly\<close> from a catalog when every
  transcription is of a pending entry, every assignment is a non-empty text to a
  pending entry and is followed at once by the save of the catalog it produces, and
  every other save writes the catalog as it then is.
\<close>

definition pending :: "json \<Rightarrow> nat \<times> nat \<Rightarrow> bool" where
  "pending d p = (case entry_at d p of None \<Rightarrow> False | Some e \<Rightarrow> needs_ref_text e = Inr True)"

fun replay :: "json \<Rightarrow> event list \<Rightarrow> json" where
  "replay d [] = d"
| "replay d (Assign p t # es) = replay (assign_ref_text d p t) es"
| "replay d (e # es) = replay d es"

fun disk_after :: "disk \<Rightarrow> event list \<Rightarrow> disk" where
  "disk_after f [] = f"
| "disk_after f (Save d outcome # es) = disk_after (fst (save_models_json outcome d f)) es"
| "disk_after f (e # es) = disk_after f es"

fun orderly :: "env \<Rightarrow> json \<Rightarrow> event list \<Rightarrow> bool" where
  "orderly env d [] = True"
| "orderly env d (Assign p t # Save d' outcome # es) =
     (t \<noteq> [] \<and> pending d p \<and> d' = assign_ref_text d p t \<and> outcome = commit_save env p \<and>
      orderly env d' es)"
| "orderly env d (Assign p t # es) = False"
| "orderly env d (Save d' outcome # es) = (d' = d \<and> orderly env d es)"
| "orderly env d (Transcribe p path opts # es) = (pending d p \<and> orderly env d es)"
| "orderly env d (e # es) = orderly env d es"

definition new_events :: "state \<Rightarrow> state \<Rightarrow> event list" where
  "new_events s s' = drop (length (trace s)) (trace s')"

fun assigned :: "event list \<Rightarrow> (nat \<times> nat) list" where
  "assigned [] = []"
| "assigned (Assign p t # es) = p # assigned es"
| "assigned (e # es) = assigned es"

text \<open>
  The catalog with the \<^verbatim>\<open>ref_text\<close> of every entry removed: what a run must leave
  as it found it.
\<close>

fun map_elems :: "(json \<Rightarrow> json) \<Rightarrow> json \<Rightarrow> json" where
  "map_elems f (JArr xs) = JArr (map f xs)"
| "map_elems f x = x"

fun delitem :: "string \<Rightarrow> json \<Rightarrow> json" where
  "delitem k (JObj kvs) = JObj (AList.delete k kvs)"
| "delitem k x = x"

definition without_ref_text :: "json \<Rightarrow> json" where
  "without_ref_text d =
     (case root_key d of
        Inl e \<Rightarrow> d
      | Inr rk \<Rightarrow>
          map_key rk
            (map_elems
              (\<lambda>grp. case models_key grp of
                        Inl e \<Rightarrow> grp
                      | Inr mk \<Rightarrow> map_key mk (map_elems (delitem ''ref_text'')) grp))
            d)"

text \<open>The state of \<^verbatim>\<open>main\<close> when the loop starts: the catalog as loaded from the file.\<close>

definition loaded :: "json \<Rightarrow> state" where
  "loaded d = \<lparr>data = d, disk = File d, updated_count = 0, trace = []\<rparr>"

section \<open>Example inputs\<close>

text \<open>
  A repository at \<^verbatim>\<open>/repo\<close> that holds three audio files, a model that hears
  \<^verbatim>\<open>' hola '\<close> in every file, and a disk that never fails.
\<close>

definition example_env :: env where
  "example_env =
     \<lparr>base_dir = ''/repo'',
      path_exists = (\<lambda>path. path \<in> set [''/repo/modeles/x.wav'', ''/repo/modeles/modeles/a.wav'', ''/repo/models/b.wav'']),
      model_loads = True,
      transcribe = (\<lambda>p path language. WText '' hola ''),
      commit_save = (\<lambda>p. SaveOk),
      pause = (\<lambda>p. SleepOk),
      final_save = SaveOk\<rparr>"

text \<open>
  A catalog that has both top-level keys. The group under \<^verbatim>\<open>models\<close> holds an entry
  without reference text; the group under \<^verbatim>\<open>modeles\<close> holds one entry that has its
  text and one that has not.
\<close>

definition english_entry :: json where
  "english_entry = JObj [(''name'', JStr ''Anna''), (''file'', JStr ''models/b.wav'')]"

definition spanish_entry :: json where
  "spanish_entry = JObj [(''name'', JStr ''Luz''), (''file'', JStr ''models/x.wav''), (''language'', JStr ''es'')]"

definition done_entry :: json where
  "done_entry = JObj [(''name'', JStr ''Eva''), (''file'', JStr ''models/c.wav''), (''ref_text'', JStr ''already here'')]"

definition english_group :: json where
  "english_group = JObj [(''language'', JStr ''en''), (''models'', JArr [english_entry])]"

definition spanish_group :: json where
  "spanish_group = JObj [(''language'', JStr ''es''), (''modeles'', JArr [done_entry, spanish_entry])]"

definition both_keys_catalog :: json where
  "both_keys_catalog = JObj [(''models'', JArr [english_group]), (''modeles'', JArr [spanish_group])]"

text \<open>A catalog whose only entry has its reference text.\<close>

definition done_catalog :: json where
  "done_catalog = JObj [(''models'', JArr [JObj [(''models'', JArr [done_entry])]])]"

text \<open>A catalog with two entries that lack their reference text.\<close>

definition pending_catalog :: json where
  "pending_catalog = JObj [(''models'', JArr [JObj [(''models'', JArr [english_entry, spanish_entry])]])]"

text \<open>The same repository with a model that hears only white space.\<close>

definition blank_env :: env where
  "blank_env = example_env\<lparr>transcribe := (\<lambda>p path language. WText [CHR 0x20, CHR 0x0A, CHR 0x09])\<rparr>"

text \<open>
  Entries that cannot be transcribed: no \<^verbatim>\<open>file\<close>, a \<^verbatim>\<open>file\<close> that is a number, a
  \<^verbatim>\<open>file\<close> that exists under neither spelling; a model that raises on every file; a
  disk on which every write of the loop fails after the file was opened.
\<close>

definition no_file_entry :: json where
  "no_file_entry = JObj [(''name'', JStr ''Nemo'')]"

definition number_file_entry :: json where
  "number_file_entry = JObj [(''name'', JStr ''Seven''), (''file'', JInt 7)]"

definition missing_file_entry :: json where
  "missing_file_entry = JObj [(''name'', JStr ''Ghost''), (''file'', JStr ''models/zz.wav'')]"

definition faulty_catalog :: json where
  "faulty_catalog =
     JObj [(''models'', JArr [JObj [(''models'',
       JArr [no_file_entry, number_file_entry, missing_file_entry, english_entry])]])]"

definition deaf_env :: env where
  "deaf_env = example_env\<lparr>transcribe := (\<lambda>p path language. WException)\<rparr>"

definition full_disk_env :: env where
  "full_disk_env = example_env\<lparr>commit_save := (\<lambda>p. SaveWriteError)\<rparr>"

text \<open>
  The same repository when \<^verbatim>\<open>KeyboardInterrupt\<close> is raised while the second entry
  is transcribed, and when it is raised in every \<^verbatim>\<open>time.sleep\<close>.
\<close>

definition interrupted_model_env :: env where
  "interrupted_model_env =
     example_env\<lparr>transcribe := (\<lambda>p path language. if p = (0, 1) then WInterrupt else WText '' hola '')\<rparr>"

definition interrupted_pause_env :: env where
  "interrupted_pause_env = example_env\<lparr>pause := (\<lambda>p. SleepInterrupt)\<rparr>"

section \<open>String replacement\<close>

lemma replace_scan_absent: "\<not> sublist old s \<Longrightarrow> replace_scan old new s = s"
proof (induction s)
  case Nil
  then show ?case by simp
next
  case (Cons c cs)
  have "\<not> prefix old (c # cs)"
    using Cons.prems prefix_imp_sublist by blast
  moreover have "\<not> sublist old cs"
    using Cons.prems by (auto simp: sublist_Cons_right)
  ultimately show ?case using Cons.IH by simp
qed

lemma prefix_short: "prefix xs (ys @ zs) \<Longrightarrow> length xs \<le> length ys \<Longrightarrow> prefix xs ys"
  by (auto simp: prefix_append)

lemma prefix_straddle:
  assumes "prefix old (a @ old @ b)" and "a \<noteq> []" and "old \<noteq> []"
  shows "sublist old (a @ butlast old)"
proof -
  have split: "a @ old @ b = (a @ butlast old) @ (last old # b)"
    using assms(3) by simp
  have "length old \<le> length (a @ butlast old)"
    using assms(2) by (cases a) auto
  with assms(1) have "prefix old (a @ butlast old)"
    unfolding split by (rule prefix_short)
  then show ?thesis by (rule prefix_imp_sublist)
qed

lemma replace_scan_occurrence:
  assumes "old \<noteq> []" and "\<not> sublist old (a @ butlast old)"
  shows "replace_scan old new (a @ old @ b) = a @ new @ replace_scan old new b"
  using assms(2)
proof (induction a)
  case Nil
  have "replace_scan old new (old @ b) = new @ replace_scan old new b"
    using assms(1) by (cases old) auto
  then show ?case by simp
next
  case (Cons c cs)
  have np: "\<not> prefix old ((c # cs) @ old @ b)"
    using prefix_straddle[of old "c # cs" b] Cons.prems assms(1) by blast
  have "\<not> sublist old (cs @ butlast old)"
    using Cons.prems by (auto simp: sublist_Cons_right)
  then have "replace_scan old new (cs @ old @ b) = cs @ new @ replace_scan old new b"
    by (rule Cons.IH)
  then show ?case using np by simp
qed

lemma py_replace_absent: "old \<noteq> [] \<Longrightarrow> \<not> sublist old s \<Longrightarrow> py_replace old new s = s"
  by (simp add: py_replace_def replace_scan_absent)

lemma audio_file_abs_primary:
  "path_exists env (join (base_dir env) rel) \<Longrightarrow> audio_file_abs env rel = join (base_dir env) rel"
  by (simp add: audio_file_abs_def Let_def)

lemma models_token_replaced:
  "\<not> sublist ''models/'' x \<Longrightarrow> py_replace ''models/'' ''modeles/'' (''models/'' @ x) = ''modeles/'' @ x"
  using replace_scan_occurrence[of "''models/''" "[]" "''modeles/''" x]
  by (simp add: py_replace_def replace_scan_absent sublist_code)

section \<open>Resolving the path of the audio file\<close>

text \<open>
  C7. The path handed to the transcription is the base directory joined with the
  declared path when that file exists. Only when it does not exist is a second path
  tried: if the declared path contains \<^verbatim>\<open>models/\<close> that token is replaced by
  \<^verbatim>\<open>modeles/\<close>, otherwise if it contains \<^verbatim>\<open>modeles/\<close> that token is replaced by
  \<^verbatim>\<open>models/\<close>; the second path is used if and only if it exists. So
  \<^verbatim>\<open>models/x.wav\<close>, missing while \<^verbatim>\<open>modeles/x.wav\<close> exists, resolves to the latter.
\<close>

theorem path_fallback:
  "(path_exists env (join (base_dir env) rel) \<longrightarrow>
      audio_file_abs env rel = join (base_dir env) rel) \<and>
   (\<not> path_exists env (join (base_dir env) rel) \<and> sublist ''models/'' rel \<longrightarrow>
      audio_file_abs env rel =
        (if path_exists env (join (base_dir env) (py_replace ''models/'' ''modeles/'' rel))
         then join (base_dir env) (py_replace ''models/'' ''modeles/'' rel)
         else join (base_dir env) rel)) \<and>
   (\<not> path_exists env (join (base_dir env) rel) \<and> \<not> sublist ''models/'' rel \<and>
    sublist ''modeles/'' rel \<longrightarrow>
      audio_file_abs env rel =
        (if path_exists env (join (base_dir env) (py_replace ''modeles/'' ''models/'' rel))
         then join (base_dir env) (py_replace ''modeles/'' ''models/'' rel)
         else join (base_dir env) rel)) \<and>
   (\<not> sublist ''models/'' rel \<and> \<not> sublist ''modeles/'' rel \<longrightarrow>
      audio_file_abs env rel = join (base_dir env) rel) \<and>
   (\<not> sublist ''models/'' x \<and>
    \<not> path_exists env (join (base_dir env) (''models/'' @ x)) \<and>
    path_exists env (join (base_dir env) (''modeles/'' @ x)) \<longrightarrow>
      audio_file_abs env (''models/'' @ x) = join (base_dir env) (''modeles/'' @ x))"
proof -
  have tok: "sublist ''models/'' (''models/'' @ x)"
    using prefix_imp_sublist[of "''models/''" "''models/'' @ x"] by simp
  show ?thesis
    using tok by (auto simp: audio_file_abs_def Let_def models_token_replaced[simplified])
qed

theorem path_fallback_witness:
  "\<not> path_exists example_env (join (base_dir example_env) ''models/x.wav'') \<and>
   sublist ''models/'' ''models/x.wav'' \<and>
   \<not> sublist ''models/'' ''x.wav'' \<and>
   path_exists example_env (join (base_dir example_env) ''modeles/x.wav'') \<and>
   audio_file_abs example_env ''models/x.wav'' = ''/repo/modeles/x.wav'' \<and>
   path_exists example_env (join (base_dir example_env) ''models/b.wav'') \<and>
   audio_file_abs example_env ''models/b.wav'' = ''/repo/models/b.wav''"
  using path_fallback[of example_env "''models/x.wav''" "''x.wav''"]
        path_fallback[of example_env "''models/b.wav''" "''b.wav''"]
  by (simp add: example_env_def join_def sublist_code py_replace_def)

text \<open>
  C10. The replacement of the fallback is not tied to the first directory of the
  declared path: an occurrence of the token is replaced wherever it stands, and so is
  every later one. \<^verbatim>\<open>models/models/a.wav\<close> becomes \<^verbatim>\<open>modeles/modeles/a.wav\<close>, which is
  the path used when the declared one is missing and that one exists.
\<close>

theorem fallback_replaces_every_occurrence:
  "(old \<noteq> [] \<and> \<not> sublist old (a @ butlast old) \<longrightarrow>
      py_replace old new (a @ old @ b) = a @ new @ py_replace old new b) \<and>
   py_replace ''models/'' ''modeles/'' ''models/models/a.wav'' = ''modeles/modeles/a.wav'' \<and>
   (\<not> path_exists env (join (base_dir env) ''models/models/a.wav'') \<and>
    path_exists env (join (base_dir env) ''modeles/modeles/a.wav'') \<longrightarrow>
      audio_file_abs env ''models/models/a.wav'' = join (base_dir env) ''modeles/modeles/a.wav'')"
  by (auto simp: py_replace_def replace_scan_occurrence audio_file_abs_def Let_def sublist_code)

theorem fallback_replaces_every_occurrence_witness:
  "''models/'' \<noteq> [] \<and> \<not> sublist ''models/'' (''voices/es/'' @ butlast ''models/'') \<and>
   py_replace ''models/'' ''modeles/'' (''voices/es/'' @ ''models/'' @ ''models/a.wav'') =
     ''voices/es/modeles/modeles/a.wav'' \<and>
   \<not> path_exists example_env (join (base_dir example_env) ''models/models/a.wav'') \<and>
   path_exists example_env (join (base_dir example_env) ''modeles/modeles/a.wav'') \<and>
   audio_file_abs example_env ''models/models/a.wav'' = ''/repo/modeles/modeles/a.wav''"
  using fallback_replaces_every_occurrence[of "''models/''" "''voices/es/''" "''modeles/''" "''models/a.wav''" example_env]
  by (simp add: example_env_def join_def sublist_code py_replace_def)


section \<open>The worklist\<close>

lemma models_key_eq: "models_key g = root_key g"
  by (simp add: models_key_def root_key_def)

lemma models_of_eq: "models_of g = groups_of g"
  by (simp add: models_of_def groups_of_def models_key_eq)

lemma key_in_dict: "(k \<in> fst ` set kvs) = (map_of kvs k \<noteq> None)"
  by (simp add: map_of_eq_None_iff)

lemma groups_of_JObj:
  "groups_of (JObj kvs) =
     Inr (case map_of kvs (if map_of kvs ''modeles'' \<noteq> None then ''modeles'' else ''models'') of
            Some (JArr gs) \<Rightarrow> gs
          | _ \<Rightarrow> [])"
  by (auto simp: groups_of_def root_key_def list_under_def key_in_dict
      split: option.splits json.splits)

lemma enumerate_snd_mem: "x \<in> set (enumerate n xs) \<Longrightarrow> snd x \<in> set xs"
  by (cases x) (auto simp: in_set_enumerate_eq)

lemma enumerate_fst_ge: "x \<in> set (enumerate n xs) \<Longrightarrow> n \<le> fst x"
  by (cases x) (auto simp: in_set_enumerate_eq)

lemma collect_total:
  "\<forall>x\<in>set xs. \<exists>zs. f x = Inr zs \<Longrightarrow> collect f xs = Inr (concat (map (\<lambda>x. projr (f x)) xs))"
  by (induction xs) auto

lemma collect_Inr_D:
  "collect f xs = Inr ys \<Longrightarrow> \<forall>x\<in>set xs. \<exists>zs. f x = Inr zs"
  by (induction xs arbitrary: ys) (auto split: sum.splits)

lemma collect_Inr_iff:
  "collect f xs = Inr ys \<longleftrightarrow>
     (\<forall>x\<in>set xs. \<exists>zs. f x = Inr zs) \<and> ys = concat (map (\<lambda>x. projr (f x)) xs)"
  using collect_total[of xs f] collect_Inr_D[of f xs ys] by auto

lemma group_tasks_Inr:
  assumes "group_tasks gi g = Inr ps"
  shows "\<exists>ms. models_of g = Inr ms \<and> (\<forall>m\<in>set ms. \<exists>b. needs_ref_text m = Inr b) \<and>
              ps = concat (map (pending_at gi) (enumerate 0 ms))"
proof -
  from assms obtain ms where ms: "models_of g = Inr ms"
    by (auto simp: group_tasks_def split: sum.splits)
  let ?f = "\<lambda>(mi, model). case needs_ref_text model of
                Inl e \<Rightarrow> Inl e
              | Inr b \<Rightarrow> Inr (if b then [(gi, mi)] else [])"
  from assms ms have c: "collect ?f (enumerate 0 ms) = Inr ps"
    by (simp add: group_tasks_def)
  then have all: "\<forall>x\<in>set (enumerate 0 ms). \<exists>zs. ?f x = Inr zs"
    and ps: "ps = concat (map (\<lambda>x. projr (?f x)) (enumerate 0 ms))"
    by (simp_all add: collect_Inr_iff)
  have nr: "\<forall>m\<in>set ms. \<exists>b. needs_ref_text m = Inr b"
  proof
    fix m assume "m \<in> set ms"
    then obtain i where "i < length ms" "ms ! i = m" by (auto simp: in_set_conv_nth)
    then have "(i, m) \<in> set (enumerate 0 ms)" by (auto simp: in_set_enumerate_eq)
    with all obtain zs where "?f (i, m) = Inr zs" by blast
    then show "\<exists>b. needs_ref_text m = Inr b" by (auto split: sum.splits)
  qed
  have "map (\<lambda>x. projr (?f x)) (enumerate 0 ms) = map (pending_at gi) (enumerate 0 ms)"
  proof (rule map_cong[OF refl])
    fix x assume "x \<in> set (enumerate 0 ms)"
    then have "snd x \<in> set ms" by (rule enumerate_snd_mem)
    with nr obtain b where "needs_ref_text (snd x) = Inr b" by blast
    then show "projr (?f x) = pending_at gi x"
      by (cases x) (auto simp: pending_at_def)
  qed
  with nr ms ps show ?thesis by auto
qed

lemma group_tasks_total:
  assumes "models_of g = Inr ms" and "\<forall>m\<in>set ms. \<exists>b. needs_ref_text m = Inr b"
  shows "\<exists>ps. group_tasks gi g = Inr ps"
proof -
  let ?f = "\<lambda>(mi, model). case needs_ref_text model of
                Inl e \<Rightarrow> Inl e
              | Inr b \<Rightarrow> Inr (if b then [(gi, mi)] else [])"
  have "\<forall>x\<in>set (enumerate 0 ms). \<exists>zs. ?f x = Inr zs"
  proof
    fix x assume "x \<in> set (enumerate 0 ms)"
    then have "snd x \<in> set ms" by (rule enumerate_snd_mem)
    with assms(2) obtain b where "needs_ref_text (snd x) = Inr b" by blast
    then show "\<exists>zs. ?f x = Inr zs" by (cases x) auto
  qed
  then show ?thesis using assms(1) collect_total[of "enumerate 0 ms" ?f]
    by (simp add: group_tasks_def)
qed

lemma set_pending:
  "set (concat (map (pending_at gi) (enumerate n ms))) =
     {(gi, mi) | mi. n \<le> mi \<and> mi < n + length ms \<and> needs_ref_text (ms ! (mi - n)) = Inr True}"
  (is "?L = ?R")
proof
  show "?L \<subseteq> ?R"
    by (auto simp: pending_at_def in_set_enumerate_eq split: if_splits)
  show "?R \<subseteq> ?L"
  proof
    fix p assume "p \<in> ?R"
    then obtain mi where p: "p = (gi, mi)" and mi: "n \<le> mi" "mi < n + length ms"
      and nd: "needs_ref_text (ms ! (mi - n)) = Inr True" by blast
    have "(mi, ms ! (mi - n)) \<in> set (enumerate n ms)"
      using mi by (simp add: in_set_enumerate_eq add.commute)
    moreover have "p \<in> set (pending_at gi (mi, ms ! (mi - n)))"
      using nd p by (simp add: pending_at_def)
    ultimately show "p \<in> ?L" by auto
  qed
qed

lemma sorted_pending:
  "sorted_wrt (\<lambda>p q. snd p < snd q) (concat (map (pending_at gi) (enumerate n ms)))"
proof (induction ms arbitrary: n)
  case Nil
  then show ?case by simp
next
  case (Cons m ms)
  have "\<forall>q\<in>set (concat (map (pending_at gi) (enumerate (Suc n) ms))). n < snd q"
    unfolding set_pending by auto
  then show ?case using Cons.IH[of "Suc n"]
    by (simp add: sorted_wrt_append pending_at_def)
qed

lemma group_tasks_set:
  assumes "group_tasks gi g = Inr ps" and "models_of g = Inr ms"
  shows "set ps = {(gi, mi) | mi. mi < length ms \<and> needs_ref_text (ms ! mi) = Inr True}"
proof -
  from group_tasks_Inr[OF assms(1)] assms(2)
  have ps: "ps = concat (map (pending_at gi) (enumerate 0 ms))" by auto
  show ?thesis unfolding ps set_pending by simp
qed

lemma group_tasks_fst:
  assumes "group_tasks gi g = Inr ps" and "p \<in> set ps"
  shows "fst p = gi"
proof -
  from group_tasks_Inr[OF assms(1)] obtain ms where "models_of g = Inr ms" by blast
  from group_tasks_set[OF assms(1) this] assms(2) show ?thesis by auto
qed

lemma group_tasks_sorted:
  assumes "group_tasks gi g = Inr ps"
  shows "sorted_wrt (\<lambda>p q. snd p < snd q) ps"
proof -
  from group_tasks_Inr[OF assms] obtain ms where
    ps: "ps = concat (map (pending_at gi) (enumerate 0 ms))" by blast
  show ?thesis unfolding ps by (rule sorted_pending)
qed

lemma sorted_concat_groups:
  assumes "\<forall>x\<in>set (enumerate n gs). (\<forall>p\<in>set (F x). fst p = fst x) \<and>
              sorted_wrt (\<lambda>p q. snd p < snd q) (F x)"
  shows "sorted_wrt before (concat (map F (enumerate n gs)))"
  using assms
proof (induction gs arbitrary: n)
  case Nil
  then show ?case by simp
next
  case (Cons g gs)
  have hd: "\<forall>p\<in>set (F (n, g)). fst p = n" "sorted_wrt (\<lambda>p q. snd p < snd q) (F (n, g))"
    using Cons.prems by auto
  have "sorted_wrt before (F (n, g))"
    by (rule sorted_wrt_mono_rel[OF _ hd(2)]) (use hd(1) in \<open>simp add: before_def\<close>)
  moreover have "sorted_wrt before (concat (map F (enumerate (Suc n) gs)))"
    using Cons.prems by (intro Cons.IH) auto
  moreover have "\<forall>a\<in>set (F (n, g)). \<forall>b\<in>set (concat (map F (enumerate (Suc n) gs))). before a b"
  proof (intro ballI)
    fix a b assume a: "a \<in> set (F (n, g))" and b: "b \<in> set (concat (map F (enumerate (Suc n) gs)))"
    from b obtain x where x: "x \<in> set (enumerate (Suc n) gs)" "b \<in> set (F x)" by auto
    then have "fst b = fst x" using Cons.prems by auto
    moreover have "Suc n \<le> fst x" by (rule enumerate_fst_ge[OF x(1)])
    moreover have "fst a = n" using a hd by auto
    ultimately show "before a b" by (simp add: before_def)
  qed
  ultimately show ?case by (simp add: sorted_wrt_append)
qed

lemma tasks_of_Inr:
  assumes "tasks_of d = Inr ps"
  shows "\<exists>gs. groups_of d = Inr gs \<and>
           (\<forall>x\<in>set (enumerate 0 gs). \<exists>zs. group_tasks (fst x) (snd x) = Inr zs) \<and>
           ps = concat (map (\<lambda>x. projr (group_tasks (fst x) (snd x))) (enumerate 0 gs))"
proof -
  from assms obtain gs where gs: "groups_of d = Inr gs"
    by (auto simp: tasks_of_def split: sum.splits)
  have eq: "(\<lambda>(gi, grp). group_tasks gi grp) = (\<lambda>x. group_tasks (fst x) (snd x))"
    by (simp add: fun_eq_iff)
  from assms gs have "collect (\<lambda>x. group_tasks (fst x) (snd x)) (enumerate 0 gs) = Inr ps"
    by (simp add: tasks_of_def eq)
  then show ?thesis using gs by (simp add: collect_Inr_iff)
qed

lemma tasks_of_sorted:
  assumes "tasks_of d = Inr ps"
  shows "sorted_wrt before ps"
proof -
  from tasks_of_Inr[OF assms] obtain gs where
    all: "\<forall>x\<in>set (enumerate 0 gs). \<exists>zs. group_tasks (fst x) (snd x) = Inr zs" and
    ps: "ps = concat (map (\<lambda>x. projr (group_tasks (fst x) (snd x))) (enumerate 0 gs))"
    by blast
  have "\<forall>x\<in>set (enumerate 0 gs).
          (\<forall>p\<in>set (projr (group_tasks (fst x) (snd x))). fst p = fst x) \<and>
          sorted_wrt (\<lambda>p q. snd p < snd q) (projr (group_tasks (fst x) (snd x)))"
  proof
    fix x assume "x \<in> set (enumerate 0 gs)"
    with all obtain zs where zs: "group_tasks (fst x) (snd x) = Inr zs" by blast
    show "(\<forall>p\<in>set (projr (group_tasks (fst x) (snd x))). fst p = fst x) \<and>
          sorted_wrt (\<lambda>p q. snd p < snd q) (projr (group_tasks (fst x) (snd x)))"
      using group_tasks_fst[OF zs] group_tasks_sorted[OF zs] zs by simp
  qed
  then show ?thesis unfolding ps by (rule sorted_concat_groups)
qed

lemma tasks_of_set:
  assumes "tasks_of d = Inr ps"
  shows "set ps = {p. \<exists>e. entry_at d p = Some e \<and> needs_ref_text e = Inr True}"
proof -
  from tasks_of_Inr[OF assms] obtain gs where gs: "groups_of d = Inr gs" and
    all: "\<forall>x\<in>set (enumerate 0 gs). \<exists>zs. group_tasks (fst x) (snd x) = Inr zs" and
    ps: "ps = concat (map (\<lambda>x. projr (group_tasks (fst x) (snd x))) (enumerate 0 gs))"
    by blast
  have grp: "\<exists>zs ms. group_tasks gi (gs ! gi) = Inr zs \<and> models_of (gs ! gi) = Inr ms \<and>
               set zs = {(gi, mi) | mi. mi < length ms \<and> needs_ref_text (ms ! mi) = Inr True}"
    if "gi < length gs" for gi
  proof -
    have "(gi, gs ! gi) \<in> set (enumerate 0 gs)" using that by (simp add: in_set_enumerate_eq)
    with all obtain zs where zs: "group_tasks gi (gs ! gi) = Inr zs" by fastforce
    from group_tasks_Inr[OF zs] obtain ms where ms: "models_of (gs ! gi) = Inr ms" by blast
    show ?thesis using zs ms group_tasks_set[OF zs ms] by blast
  qed
  show ?thesis
  proof (intro set_eqI iffI)
    fix p assume "p \<in> set ps"
    then obtain x where x: "x \<in> set (enumerate 0 gs)" "p \<in> set (projr (group_tasks (fst x) (snd x)))"
      unfolding ps by auto
    obtain gi g where xg: "x = (gi, g)" by (cases x)
    with x(1) have gi: "gi < length gs" "g = gs ! gi" by (auto simp: in_set_enumerate_eq)
    from grp[OF gi(1)] obtain zs ms where
      z: "group_tasks gi (gs ! gi) = Inr zs" "models_of (gs ! gi) = Inr ms"
         "set zs = {(gi, mi) | mi. mi < length ms \<and> needs_ref_text (ms ! mi) = Inr True}"
      by blast
    from x(2) xg gi z obtain mi where "p = (gi, mi)" "mi < length ms"
      "needs_ref_text (ms ! mi) = Inr True" by auto
    then show "p \<in> {p. \<exists>e. entry_at d p = Some e \<and> needs_ref_text e = Inr True}"
      using gs gi z by (simp add: entry_at_def)
  next
    fix p assume "p \<in> {p. \<exists>e. entry_at d p = Some e \<and> needs_ref_text e = Inr True}"
    then obtain e where e: "entry_at d p = Some e" "needs_ref_text e = Inr True" by blast
    from e(1) gs have gi: "fst p < length gs"
      by (auto simp: entry_at_def split: if_splits)
    from grp[OF gi] obtain zs ms where
      z: "group_tasks (fst p) (gs ! fst p) = Inr zs" "models_of (gs ! fst p) = Inr ms"
         "set zs = {(fst p, mi) | mi. mi < length ms \<and> needs_ref_text (ms ! mi) = Inr True}"
      by blast
    from e gs gi z have "snd p < length ms" "needs_ref_text (ms ! snd p) = Inr True"
      by (auto simp: entry_at_def split: if_splits)
    then have "p \<in> set zs" using z(3) by (cases p) auto
    moreover have "(fst p, gs ! fst p) \<in> set (enumerate 0 gs)"
      using gi by (simp add: in_set_enumerate_eq)
    ultimately show "p \<in> set ps" unfolding ps using z(1) by force
  qed
qed

lemma is_dict_needs: "is_dict m \<Longrightarrow> \<exists>b. needs_ref_text m = Inr b"
  by (cases m) (auto simp: needs_ref_text_def)

lemma tasks_of_total:
  assumes "well_shaped d"
  shows "\<exists>ps. tasks_of d = Inr ps"
proof -
  from assms obtain gs where gs: "groups_of d = Inr gs"
    by (cases "groups_of d") (auto simp: well_shaped_def)
  have shape: "\<exists>ms. models_of g = Inr ms \<and> (\<forall>m\<in>set ms. is_dict m)" if "g \<in> set gs" for g
    using assms gs that
    by (cases "models_of g") (auto simp: well_shaped_def list_all_iff)
  have "\<forall>x\<in>set (enumerate 0 gs). \<exists>zs. (\<lambda>(gi, grp). group_tasks gi grp) x = Inr zs"
  proof
    fix x assume "x \<in> set (enumerate 0 gs)"
    then have "snd x \<in> set gs" by (rule enumerate_snd_mem)
    from shape[OF this] obtain ms where "models_of (snd x) = Inr ms" "\<forall>m\<in>set ms. is_dict m" by blast
    then have "\<exists>ps. group_tasks (fst x) (snd x) = Inr ps"
      by (intro group_tasks_total) (auto dest: is_dict_needs)
    then show "\<exists>zs. (\<lambda>(gi, grp). group_tasks gi grp) x = Inr zs" by (cases x) simp
  qed
  then show ?thesis using gs collect_total[of "enumerate 0 gs" "\<lambda>(gi, grp). group_tasks gi grp"]
    by (simp add: tasks_of_def)
qed

text \<open>
  C2, as the code has it. The enumeration does not walk both spellings: at the top
  level and in every group it reads one key, \<^verbatim>\<open>modeles\<close> when the object has it and
  \<^verbatim>\<open>models\<close> otherwise (\<open>entry_at\<close> follows the same choice). The worklist is then
  exactly the entries under the chosen keys that lack a reference text, each once,
  in document order; and the enumeration of a catalog made of dicts raises nothing.
\<close>

theorem worklist_is_pending_entries_of_selected_keys:
  "(tasks_of d = Inr ps \<longrightarrow>
      set ps = {p. \<exists>e. entry_at d p = Some e \<and> needs_ref_text e = Inr True} \<and>
      sorted_wrt before ps) \<and>
   (well_shaped d \<longrightarrow> (\<exists>qs. tasks_of d = Inr qs))"
  using tasks_of_set[of d ps] tasks_of_sorted[of d ps] tasks_of_total[of d] by blast


theorem worklist_is_pending_entries_of_selected_keys_witness:
  "tasks_of both_keys_catalog = Inr [(0, 1)] \<and>
   well_shaped both_keys_catalog \<and>
   set [(0, 1)] = {p. \<exists>e. entry_at both_keys_catalog p = Some e \<and> needs_ref_text e = Inr True} \<and>
   sorted_wrt before [(0, 1)]"
proof -
  have t: "tasks_of both_keys_catalog = Inr [(0, 1)]" by code_simp
  have w: "well_shaped both_keys_catalog" by code_simp
  from worklist_is_pending_entries_of_selected_keys[of both_keys_catalog "[(0, 1)]"] t w
  show ?thesis by simp
qed

text \<open>
  C2 as stated fails: an entry without reference text that is reachable under
  \<^verbatim>\<open>models\<close> at both levels is not in the worklist when the root also has
  \<^verbatim>\<open>modeles\<close>.
\<close>

theorem pending_entry_under_models_not_enumerated:
  "py_getitem both_keys_catalog ''models'' = Inr (JArr [english_group]) \<and>
   py_getitem english_group ''models'' = Inr (JArr [english_entry]) \<and>
   needs_ref_text english_entry = Inr True \<and>
   tasks_of both_keys_catalog = Inr [(0, 1)] \<and>
   entry_at both_keys_catalog (0, 1) = Some spanish_entry \<and>
   spanish_entry \<noteq> english_entry"
  by code_simp

lemma groups_of_modeles:
  "map_of kvs ''modeles'' = Some v \<Longrightarrow> groups_of (JObj kvs) = groups_of (JObj [(''modeles'', v)])"
  by (simp add: groups_of_JObj)

text \<open>
  C9. When the root has the key \<^verbatim>\<open>modeles\<close>, the groups, the worklist and the entries
  the tasks refer to are those of the catalog that has this key alone: whatever
  stands under \<^verbatim>\<open>models\<close> is ignored and no error is raised for it. The same holds
  inside each group.
\<close>

theorem modeles_key_takes_precedence:
  "(map_of kvs ''modeles'' = Some v \<longrightarrow>
      groups_of (JObj kvs) = groups_of (JObj [(''modeles'', v)]) \<and>
      tasks_of (JObj kvs) = tasks_of (JObj [(''modeles'', v)]) \<and>
      entry_at (JObj kvs) p = entry_at (JObj [(''modeles'', v)]) p) \<and>
   (map_of gkvs ''modeles'' = Some w \<longrightarrow>
      models_of (JObj gkvs) = models_of (JObj [(''modeles'', w)]) \<and>
      group_tasks gi (JObj gkvs) = group_tasks gi (JObj [(''modeles'', w)]))"
  using groups_of_modeles[of kvs v] groups_of_modeles[of gkvs w]
  by (simp add: tasks_of_def entry_at_def group_tasks_def models_of_eq)

theorem modeles_key_takes_precedence_witness:
  "map_of [(''models'', JArr [english_group]), (''modeles'', JArr [spanish_group])] ''modeles'' =
     Some (JArr [spanish_group]) \<and>
   tasks_of (JObj [(''models'', JArr [english_group]), (''modeles'', JArr [spanish_group])]) =
     tasks_of (JObj [(''modeles'', JArr [spanish_group])]) \<and>
   entry_at (JObj [(''models'', JArr [english_group]), (''modeles'', JArr [spanish_group])]) (0, 0) =
     Some done_entry \<and>
   map_of [(''models'', JArr [english_entry]), (''modeles'', JArr [spanish_entry])] ''modeles'' =
     Some (JArr [spanish_entry]) \<and>
   models_of (JObj [(''models'', JArr [english_entry]), (''modeles'', JArr [spanish_entry])]) =
     Inr [spanish_entry] \<and>
   group_tasks 0 (JObj [(''models'', JArr [english_entry]), (''modeles'', JArr [spanish_entry])]) =
     group_tasks 0 (JObj [(''modeles'', JArr [spanish_entry])])"
proof -
  have e: "entry_at (JObj [(''modeles'', JArr [spanish_group])]) (0, 0) = Some done_entry"
    by code_simp
  have m: "models_of (JObj [(''modeles'', JArr [spanish_entry])]) = Inr [spanish_entry]"
    by code_simp
  from modeles_key_takes_precedence[of
      "[(''models'', JArr [english_group]), (''modeles'', JArr [spanish_group])]"
      "JArr [spanish_group]" "(0, 0)"
      "[(''models'', JArr [english_entry]), (''modeles'', JArr [spanish_entry])]"
      "JArr [spanish_entry]" 0] e m
  show ?thesis by simp
qed

section \<open>Assigning to one entry\<close>

lemma root_key_JObj:
  "root_key (JObj kvs) = Inr (if map_of kvs ''modeles'' \<noteq> None then ''modeles'' else ''models'')"
  by (simp add: root_key_def key_in_dict)

lemma map_index_simp: "map_index i f (JArr xs) = JArr (xs[i := f (xs ! i)])"
  by (simp add: list_update_beyond)

lemma groups_of_not_dict:
  "\<not> is_dict x \<Longrightarrow> groups_of x = Inr [] \<or> (\<exists>e. groups_of x = Inl e)"
  by (cases x) (auto simp: groups_of_def root_key_def list_under_def)

lemma root_key_map_key: "root_key (map_key k f x) = root_key x"
  by (cases x) (auto simp: root_key_def AList.dom_map_entry)

lemma groups_of_map_key:
  assumes "root_key x = Inr k"
  shows "groups_of (map_key k (map_index i f) x) =
           (case groups_of x of Inl e \<Rightarrow> Inl e | Inr xs \<Rightarrow> Inr (xs[i := f (xs ! i)]))"
proof (cases "is_dict x")
  case True
  then obtain kvs where x: "x = JObj kvs" by (cases x) auto
  with assms have k: "k = (if map_of kvs ''modeles'' \<noteq> None then ''modeles'' else ''models'')"
    by (simp add: root_key_JObj)
  show ?thesis
    unfolding x using k
    by (auto simp: groups_of_JObj AList.map_of_map_entry list_update_beyond
        split: option.splits json.splits)
next
  case False
  then have "map_key k (map_index i f) x = x" by (cases x) auto
  then show ?thesis using groups_of_not_dict[OF False] by auto
qed


lemma models_of_map_key:
  "models_of (case models_key g of Inl e \<Rightarrow> g | Inr mk \<Rightarrow> map_key mk (map_index i f) g) =
     (case models_of g of Inl e \<Rightarrow> Inl e | Inr ms \<Rightarrow> Inr (ms[i := f (ms ! i)]))"
proof (cases "models_key g")
  case (Inl e)
  then show ?thesis by (simp add: models_of_def)
next
  case (Inr mk)
  then show ?thesis
    using groups_of_map_key[of g mk i f] by (simp add: models_of_eq models_key_eq)
qed

lemma groups_of_assign:
  "groups_of (assign_ref_text d p t) =
     (case groups_of d of
        Inl e \<Rightarrow> Inl e
      | Inr gs \<Rightarrow>
          Inr (gs[fst p :=
                 (case models_key (gs ! fst p) of
                    Inl e \<Rightarrow> gs ! fst p
                  | Inr mk \<Rightarrow>
                      map_key mk (map_index (snd p) (setitem ''ref_text'' (JStr t))) (gs ! fst p))]))"
proof (cases "root_key d")
  case (Inl e)
  then show ?thesis by (simp add: assign_ref_text_def groups_of_def)
next
  case (Inr rk)
  then show ?thesis
    using groups_of_map_key[OF Inr] by (simp add: assign_ref_text_def)
qed

lemma entry_at_assign:
  "entry_at (assign_ref_text d p t) q =
     (if q = p then map_option (setitem ''ref_text'' (JStr t)) (entry_at d p) else entry_at d q)"
proof (cases "groups_of d")
  case (Inl e)
  then show ?thesis by (simp add: entry_at_def groups_of_assign)
next
  case (Inr gs)
  show ?thesis
  proof (cases "fst q < length gs")
    case False
    then show ?thesis using Inr by (auto simp: entry_at_def groups_of_assign)
  next
    case True
    show ?thesis
    proof (cases "fst q = fst p")
      case False
      then have "q \<noteq> p" by auto
      then show ?thesis using Inr True False by (simp add: entry_at_def groups_of_assign)
    next
      case same: True
      show ?thesis
        using Inr True same
        by (cases "models_of (gs ! fst p)")
           (auto simp: entry_at_def groups_of_assign models_of_map_key prod_eq_iff)
    qed
  qed
qed

lemma py_get_setitem:
  "is_dict e \<Longrightarrow> py_get (setitem k v e) k' = (if k' = k then Inr v else py_get e k')"
  by (cases e) (auto simp: update_conv')

lemma needs_ref_text_dict: "needs_ref_text e = Inr b \<Longrightarrow> is_dict e"
  by (cases e) (auto simp: needs_ref_text_def)

lemma needs_ref_text_setitem:
  "is_dict e \<Longrightarrow> t \<noteq> [] \<Longrightarrow> needs_ref_text (setitem ''ref_text'' (JStr t) e) = Inr False"
  by (simp add: needs_ref_text_def py_get_setitem)

section \<open>The trace of a run\<close>

lemma psm_events:
  "fst (process_single_model env p e) = [] \<or>
   (needs_ref_text e = Inr True \<and>
    (\<exists>path opts. fst (process_single_model env p e) = [Transcribe p path opts]))"
  by (cases e)
     (auto simp: process_single_model_def transcribe_audio_def needs_ref_text_def Let_def
       split: json.splits whisper_outcome.splits option.splits)

lemma psm_updated:
  "snd (process_single_model env p e) = Inr (True, Some t) \<Longrightarrow>
     t \<noteq> [] \<and> needs_ref_text e = Inr True"
  by (cases e)
     (auto simp: process_single_model_def transcribe_audio_def needs_ref_text_def Let_def
       split: json.splits whisper_outcome.splits option.splits if_splits)


lemma iteration_trace:
  "trace (snd (iteration env p s)) = trace s @ new_events s (snd (iteration env p s)) \<and>
   orderly env (data s) (new_events s (snd (iteration env p s))) \<and>
   data (snd (iteration env p s)) = replay (data s) (new_events s (snd (iteration env p s))) \<and>
   disk (snd (iteration env p s)) = disk_after (disk s) (new_events s (snd (iteration env p s)))"
proof (cases "entry_at (data s) p")
  case None
  then show ?thesis by (simp add: iteration_def try_body_def new_events_def)
next
  case (Some m)
  obtain ev r where psm: "process_single_model env p m = (ev, r)" by fastforce
  from psm_events[of env p m] psm
  have ev: "ev = [] \<or> (pending (data s) p \<and> (\<exists>path opts. ev = [Transcribe p path opts]))"
    using Some by (auto simp: pending_def)
  show ?thesis
  proof (cases r)
    case (Inl e)
    show ?thesis
      using Some psm Inl ev
      by (cases "final_save env")
         (auto simp: iteration_def try_body_def new_events_def Let_def)
  next
    case (Inr ux)
    obtain u x where ux: "ux = (u, x)" by (cases ux)
    show ?thesis
    proof (cases "u \<and> (\<exists>t. x = Some t \<and> t \<noteq> [])")
      case False
      then show ?thesis
        using Some psm Inr ux ev
        by (cases x) (auto simp: iteration_def try_body_def new_events_def Let_def)
    next
      case True
      then obtain t where t: "u" "x = Some t" "t \<noteq> []" by blast
      with psm Inr ux psm_updated[of env p m t] Some have pend: "pending (data s) p"
        by (simp add: pending_def)
      show ?thesis
        using Some psm Inr ux ev t pend
        by (cases "commit_save env p"; cases "pause env p"; cases "final_save env")
           (auto simp: iteration_def try_body_def new_events_def Let_def)
    qed
  qed
qed


lemma replay_append: "replay d (a @ b) = replay (replay d a) b"
  by (induction d a rule: replay.induct) auto

lemma disk_after_append: "disk_after f (a @ b) = disk_after (disk_after f a) b"
  by (induction f a rule: disk_after.induct) auto

lemma orderly_append:
  "orderly env d a \<Longrightarrow> orderly env (replay d a) b \<Longrightarrow> orderly env d (a @ b)"
  by (induction env d a rule: orderly.induct) auto

lemma process_tasks_trace:
  "trace (snd (process_tasks env ps s)) = trace s @ new_events s (snd (process_tasks env ps s)) \<and>
   orderly env (data s) (new_events s (snd (process_tasks env ps s))) \<and>
   data (snd (process_tasks env ps s)) = replay (data s) (new_events s (snd (process_tasks env ps s))) \<and>
   disk (snd (process_tasks env ps s)) = disk_after (disk s) (new_events s (snd (process_tasks env ps s)))"
proof (induction ps arbitrary: s)
  case Nil
  then show ?case by (simp add: new_events_def)
next
  case (Cons p ps)
  obtain r s1 where it: "iteration env p s = (r, s1)" by fastforce
  from iteration_trace[of env p s] it
  have one: "trace s1 = trace s @ new_events s s1" "orderly env (data s) (new_events s s1)"
    "data s1 = replay (data s) (new_events s s1)" "disk s1 = disk_after (disk s) (new_events s s1)"
    by simp_all
  show ?case
  proof (cases r)
    case (Some x)
    then show ?thesis using it one by simp
  next
    case None
    let ?s' = "snd (process_tasks env ps s1)"
    from None it have eq: "process_tasks env (p # ps) s = process_tasks env ps s1" by simp
    from Cons.IH[of s1]
    have rest: "trace ?s' = trace s1 @ new_events s1 ?s'" "orderly env (data s1) (new_events s1 ?s')"
      "data ?s' = replay (data s1) (new_events s1 ?s')" "disk ?s' = disk_after (disk s1) (new_events s1 ?s')"
      by simp_all
    have ne: "new_events s ?s' = new_events s s1 @ new_events s1 ?s'"
      using one(1) rest(1) unfolding new_events_def
      by (metis append.assoc append_eq_conv_conj)
    show ?thesis
      unfolding eq ne
      using one rest by (simp add: replay_append disk_after_append orderly_append)
  qed
qed

lemma main_cases:
  assumes "main env (File d0) = (x, s)"
  shows "s = \<lparr>data = d0, disk = File d0, updated_count = 0, trace = []\<rparr> \<or>
         (\<exists>tasks. tasks_of d0 = Inr tasks \<and> tasks \<noteq> [] \<and>
            process_tasks env tasks \<lparr>data = d0, disk = File d0, updated_count = 0, trace = []\<rparr> = (x, s))"
proof (cases "tasks_of d0")
  case (Inl e)
  with assms show ?thesis by (simp add: main_def Let_def split: if_splits)
next
  case (Inr tasks)
  with assms show ?thesis
    by (cases "tasks = []") (simp_all add: main_def Let_def split: if_splits)
qed

lemma main_trace:
  assumes "main env (File d0) = (x, s)"
  shows "orderly env d0 (trace s) \<and> data s = replay d0 (trace s) \<and>
         disk s = disk_after (File d0) (trace s)"
proof -
  let ?s1 = "\<lparr>data = d0, disk = File d0, updated_count = 0, trace = []\<rparr>"
  from main_cases[OF assms] show ?thesis
  proof
    assume "s = ?s1"
    then show ?thesis by simp
  next
    assume "\<exists>tasks. tasks_of d0 = Inr tasks \<and> tasks \<noteq> [] \<and> process_tasks env tasks ?s1 = (x, s)"
    then obtain tasks where pt: "process_tasks env tasks ?s1 = (x, s)" by blast
    have tr: "new_events ?s1 s = trace s" by (simp add: new_events_def)
    show ?thesis
      using process_tasks_trace[of env tasks ?s1] unfolding pt snd_conv tr by simp
  qed
qed

lemma pending_after_assign:
  assumes "pending d p" and "t \<noteq> []"
  shows "pending (assign_ref_text d p t) q \<longleftrightarrow> q \<noteq> p \<and> pending d q"
proof -
  from assms(1) obtain e where e: "entry_at d p = Some e" "needs_ref_text e = Inr True"
    by (auto simp: pending_def split: option.splits)
  then have "is_dict e" by (auto dest: needs_ref_text_dict)
  then have "needs_ref_text (setitem ''ref_text'' (JStr t) e) = Inr False"
    using assms(2) by (rule needs_ref_text_setitem)
  then show ?thesis using e by (auto simp: pending_def entry_at_assign)
qed

lemma orderly_commit:
  "orderly env d (Assign p t # Save d' outcome # es) \<Longrightarrow>
     t \<noteq> [] \<and> pending d p \<and> d' = assign_ref_text d p t \<and> outcome = commit_save env p \<and>
     orderly env (assign_ref_text d p t) es"
  by auto

lemma orderly_not_pending_kept:
  "orderly env d evs \<Longrightarrow> \<not> pending d q \<Longrightarrow> entry_at (replay d evs) q = entry_at d q"
proof (induction env d evs rule: orderly.induct)
  case (2 env d p t d' outcome es)
  from orderly_commit[OF "2.prems"(1)]
  have o: "t \<noteq> []" "pending d p" "d' = assign_ref_text d p t" "orderly env d' es" by simp_all
  have "q \<noteq> p" using o(2) "2.prems"(2) by auto
  moreover have "\<not> pending d' q" using o "2.prems"(2) by (simp add: pending_after_assign)
  ultimately show ?case using "2.IH"[OF o(4)] o(3) by (simp add: entry_at_assign)
qed auto

lemma orderly_pending_kept:
  "orderly env d evs \<Longrightarrow> pending (replay d evs) q \<Longrightarrow> entry_at (replay d evs) q = entry_at d q"
proof (induction env d evs rule: orderly.induct)
  case (2 env d p t d' outcome es)
  from orderly_commit[OF "2.prems"(1)]
  have o: "t \<noteq> []" "pending d p" "d' = assign_ref_text d p t" "orderly env d' es" by simp_all
  have pr: "pending (replay d' es) q" using "2.prems"(2) o(3) by simp
  have a: "entry_at (replay d' es) q = entry_at d' q" by (rule "2.IH"[OF o(4) pr])
  with pr have "pending d' q" by (simp add: pending_def)
  with o have "q \<noteq> p" by (simp add: pending_after_assign)
  then show ?case using a o(3) by (simp add: entry_at_assign)
qed auto

lemma orderly_assign_pending:
  "orderly env d evs \<Longrightarrow> Assign q u \<in> set evs \<Longrightarrow> pending d q"
proof (induction env d evs rule: orderly.induct)
  case (2 env d p t d' outcome es)
  from orderly_commit[OF "2.prems"(1)]
  have o: "t \<noteq> []" "pending d p" "d' = assign_ref_text d p t" "orderly env d' es" by simp_all
  show ?case
  proof (cases "Assign q u \<in> set es")
    case True
    from "2.IH"[OF o(4) True] have "pending d' q" .
    then show ?thesis using o by (simp add: pending_after_assign)
  next
    case False
    with "2.prems"(2) have "q = p" by auto
    then show ?thesis using o by simp
  qed
qed auto

lemma orderly_transcribe_pending:
  "orderly env d evs \<Longrightarrow> Transcribe q path opts \<in> set evs \<Longrightarrow> pending d q"
proof (induction env d evs rule: orderly.induct)
  case (2 env d p t d' outcome es)
  from orderly_commit[OF "2.prems"(1)]
  have o: "t \<noteq> []" "pending d p" "d' = assign_ref_text d p t" "orderly env d' es" by simp_all
  from "2.prems"(2) have "Transcribe q path opts \<in> set es" by simp
  from "2.IH"[OF o(4) this] have "pending d' q" .
  then show ?case using o by (simp add: pending_after_assign)
qed auto

lemma set_assigned: "q \<in> set (assigned evs) \<longleftrightarrow> (\<exists>u. Assign q u \<in> set evs)"
  by (induction evs rule: assigned.induct) auto

lemma orderly_distinct_assigned:
  "orderly env d evs \<Longrightarrow> distinct (assigned evs)"
proof (induction env d evs rule: orderly.induct)
  case (2 env d p t d' outcome es)
  from orderly_commit[OF "2.prems"(1)]
  have o: "t \<noteq> []" "pending d p" "d' = assign_ref_text d p t" "orderly env d' es" by simp_all
  have "p \<notin> set (assigned es)"
  proof
    assume "p \<in> set (assigned es)"
    then obtain u where "Assign p u \<in> set es" by (auto simp: set_assigned)
    from orderly_assign_pending[OF o(4) this] have "pending d' p" .
    with o show False by (simp add: pending_after_assign)
  qed
  then show ?case using "2.IH"[OF o(4)] by simp
qed auto

lemma orderly_assigned_text:
  "orderly env d evs \<Longrightarrow> Assign q u \<in> set evs \<Longrightarrow>
     \<exists>e. entry_at (replay d evs) q = Some e \<and> py_get e ''ref_text'' = Inr (JStr u)"
proof (induction env d evs rule: orderly.induct)
  case (2 env d p t d' outcome es)
  from orderly_commit[OF "2.prems"(1)]
  have o: "t \<noteq> []" "pending d p" "d' = assign_ref_text d p t" "orderly env d' es" by simp_all
  show ?case
  proof (cases "Assign q u \<in> set es")
    case True
    from "2.IH"[OF o(4) True] show ?thesis using o(3) by simp
  next
    case False
    with "2.prems"(2) have qp: "q = p" "u = t" by auto
    from o(2) obtain e where e: "entry_at d p = Some e" "needs_ref_text e = Inr True"
      by (auto simp: pending_def split: option.splits)
    then have dict: "is_dict e" by (auto dest: needs_ref_text_dict)
    have "\<not> pending d' p" using o by (simp add: pending_after_assign)
    from orderly_not_pending_kept[OF o(4) this]
    have "entry_at (replay d' es) p = entry_at d' p" .
    then show ?thesis using o(3) e dict qp by (simp add: entry_at_assign py_get_setitem)
  qed
qed auto

section \<open>Entries that have their reference text\<close>

lemma pending_iff:
  "pending d p \<longleftrightarrow> (\<exists>e. entry_at d p = Some e \<and> needs_ref_text e = Inr True)"
  by (auto simp: pending_def split: option.splits)

lemma not_pending_if_truthy:
  "entry_at d p = Some e \<Longrightarrow> py_get e ''ref_text'' = Inr v \<Longrightarrow> truthy v \<Longrightarrow> \<not> pending d p"
  by (simp add: pending_def needs_ref_text_def)

lemma pending_falsy:
  "pending d p \<Longrightarrow> \<exists>e v. entry_at d p = Some e \<and> py_get e ''ref_text'' = Inr v \<and> \<not> truthy v"
  by (auto simp: pending_def needs_ref_text_def split: option.splits sum.splits)

lemma no_tasks_if_none_pending:
  assumes "\<forall>p. \<not> pending d p" and "tasks_of d = Inr ps"
  shows "ps = []"
proof -
  from tasks_of_set[OF assms(2)] assms(1) have "set ps = {}" by (auto simp: pending_iff)
  then show ?thesis by simp
qed

lemma main_idle:
  assumes "\<forall>p. \<not> pending d0 p"
  shows "snd (main env (File d0)) = \<lparr>data = d0, disk = File d0, updated_count = 0, trace = []\<rparr>"
proof -
  obtain x s where m: "main env (File d0) = (x, s)" by fastforce
  from main_cases[OF m] show ?thesis
  proof
    assume "s = \<lparr>data = d0, disk = File d0, updated_count = 0, trace = []\<rparr>"
    then show ?thesis using m by simp
  next
    assume "\<exists>tasks. tasks_of d0 = Inr tasks \<and> tasks \<noteq> [] \<and>
      process_tasks env tasks \<lparr>data = d0, disk = File d0, updated_count = 0, trace = []\<rparr> = (x, s)"
    then show ?thesis using no_tasks_if_none_pending[OF assms] by blast
  qed
qed

text \<open>
  C3. When every entry of the catalog has a \<^verbatim>\<open>ref_text\<close> that Python takes for true
  (a non-empty string in particular), the run changes nothing in memory, writes
  nothing to the file and records no event: no transcription, no assignment, no
  save. So a second run, on the file that a first run left with every entry
  satisfied, does nothing, whatever the model would answer. In any run, an entry that has such a \<^verbatim>\<open>ref_text\<close> at the start is the same
  entry at the end, and every transcription of the run is of an entry whose
  \<^verbatim>\<open>ref_text\<close> was missing or empty at the start.
\<close>

theorem satisfied_entries_are_left_alone:
  "((\<forall>p e. entry_at d0 p = Some e \<longrightarrow> (\<exists>v. py_get e ''ref_text'' = Inr v \<and> truthy v)) \<longrightarrow>
      snd (main env (File d0)) = \<lparr>data = d0, disk = File d0, updated_count = 0, trace = []\<rparr>) \<and>
   (main env (File d0) = (x, s) \<and> disk s = File (data s) \<and>
    (\<forall>p e. entry_at (data s) p = Some e \<longrightarrow> (\<exists>v. py_get e ''ref_text'' = Inr v \<and> truthy v)) \<longrightarrow>
      snd (main env' (disk s)) =
        \<lparr>data = data s, disk = disk s, updated_count = 0, trace = []\<rparr>) \<and>
   (main env (File d0) = (x, s) \<and> entry_at d0 p = Some e \<and>
    py_get e ''ref_text'' = Inr v \<and> truthy v \<longrightarrow>
      entry_at (data s) p = Some e) \<and>
   (main env (File d0) = (x, s) \<and> Transcribe q path opts \<in> set (trace s) \<longrightarrow>
      (\<exists>e' v'. entry_at d0 q = Some e' \<and> py_get e' ''ref_text'' = Inr v' \<and> \<not> truthy v'))"
proof (intro conjI impI)
  assume "\<forall>p e. entry_at d0 p = Some e \<longrightarrow> (\<exists>v. py_get e ''ref_text'' = Inr v \<and> truthy v)"
  then have "\<forall>p. \<not> pending d0 p"
    by (metis not_pending_if_truthy pending_iff)
  then show "snd (main env (File d0)) = \<lparr>data = d0, disk = File d0, updated_count = 0, trace = []\<rparr>"
    by (rule main_idle)
next
  assume a: "main env (File d0) = (x, s) \<and> disk s = File (data s) \<and>
    (\<forall>p e. entry_at (data s) p = Some e \<longrightarrow> (\<exists>v. py_get e ''ref_text'' = Inr v \<and> truthy v))"
  then have "\<forall>p. \<not> pending (data s) p"
    by (metis not_pending_if_truthy pending_iff)
  from main_idle[OF this, of env'] a
  show "snd (main env' (disk s)) = \<lparr>data = data s, disk = disk s, updated_count = 0, trace = []\<rparr>"
    by simp
next
  assume a: "main env (File d0) = (x, s) \<and> entry_at d0 p = Some e \<and>
    py_get e ''ref_text'' = Inr v \<and> truthy v"
  then have np: "\<not> pending d0 p" using not_pending_if_truthy by blast
  from a main_trace[of env d0 x s] have "orderly env d0 (trace s)" "data s = replay d0 (trace s)"
    by simp_all
  with orderly_not_pending_kept[OF _ np] a show "entry_at (data s) p = Some e" by simp
next
  assume a: "main env (File d0) = (x, s) \<and> Transcribe q path opts \<in> set (trace s)"
  with main_trace[of env d0 x s] have "orderly env d0 (trace s)" by simp
  with a have "pending d0 q" by (auto dest: orderly_transcribe_pending)
  then show "\<exists>e' v'. entry_at d0 q = Some e' \<and> py_get e' ''ref_text'' = Inr v' \<and> \<not> truthy v'"
    by (rule pending_falsy)
qed

lemma done_catalog_entries:
  "entry_at done_catalog p = Some e \<Longrightarrow> e = done_entry"
  by (auto simp: done_catalog_def entry_at_def groups_of_JObj models_of_eq split: if_splits)

lemma pending_catalog_after_run:
  "data (snd (main example_env (File pending_catalog))) =
     JObj [(''models'', JArr [JObj [(''models'',
       JArr [JObj [(''name'', JStr ''Anna''), (''file'', JStr ''models/b.wav''),
                   (''ref_text'', JStr ''hola'')],
             JObj [(''name'', JStr ''Luz''), (''file'', JStr ''models/x.wav''),
                   (''language'', JStr ''es''), (''ref_text'', JStr ''hola'')]])]])]"
  by code_simp

lemma pending_catalog_after_run_entries:
  "entry_at (data (snd (main example_env (File pending_catalog)))) p = Some e \<Longrightarrow>
     py_get e ''ref_text'' = Inr (JStr ''hola'')"
  unfolding pending_catalog_after_run
  by (auto simp: entry_at_def groups_of_JObj models_of_eq less_Suc_eq split: if_splits)

theorem satisfied_entries_are_left_alone_witness:
  "snd (main example_env (File done_catalog)) =
     \<lparr>data = done_catalog, disk = File done_catalog, updated_count = 0, trace = []\<rparr> \<and>
   py_get done_entry ''ref_text'' = Inr (JStr ''already here'') \<and>
   disk (snd (main example_env (File pending_catalog))) =
     File (data (snd (main example_env (File pending_catalog)))) \<and>
   assigned (trace (snd (main example_env (File pending_catalog)))) = [(0, 0), (0, 1)] \<and>
   snd (main deaf_env (disk (snd (main example_env (File pending_catalog))))) =
     \<lparr>data = data (snd (main example_env (File pending_catalog))),
      disk = disk (snd (main example_env (File pending_catalog))),
      updated_count = 0, trace = []\<rparr> \<and>
   entry_at both_keys_catalog (0, 0) = Some done_entry \<and>
   entry_at (data (snd (main example_env (File both_keys_catalog)))) (0, 0) = Some done_entry \<and>
   Transcribe (0, 1) ''/repo/modeles/x.wav'' (Some (JStr ''es''))
     \<in> set (trace (snd (main example_env (File both_keys_catalog)))) \<and>
   entry_at both_keys_catalog (0, 1) = Some spanish_entry \<and>
   py_get spanish_entry ''ref_text'' = Inr JNull"
proof -
  have r: "py_get done_entry ''ref_text'' = Inr (JStr ''already here'')" by code_simp
  have all: "\<forall>p e. entry_at done_catalog p = Some e \<longrightarrow>
               (\<exists>v. py_get e ''ref_text'' = Inr v \<and> truthy v)"
    using r by (auto dest!: done_catalog_entries)
  have all2: "\<forall>p e. entry_at (data (snd (main example_env (File pending_catalog)))) p = Some e \<longrightarrow>
               (\<exists>v. py_get e ''ref_text'' = Inr v \<and> truthy v)"
    by (auto dest!: pending_catalog_after_run_entries)
  have d2: "disk (snd (main example_env (File pending_catalog))) =
     File (data (snd (main example_env (File pending_catalog))))" by code_simp
  have a2: "assigned (trace (snd (main example_env (File pending_catalog)))) = [(0, 0), (0, 1)]"
    by code_simp
  have m2: "main example_env (File pending_catalog) =
             (fst (main example_env (File pending_catalog)),
              snd (main example_env (File pending_catalog)))" by simp
  have e0: "entry_at both_keys_catalog (0, 0) = Some done_entry" by code_simp
  have e1: "entry_at both_keys_catalog (0, 1) = Some spanish_entry" by code_simp
  have r1: "py_get spanish_entry ''ref_text'' = Inr JNull" by code_simp
  have t: "Transcribe (0, 1) ''/repo/modeles/x.wav'' (Some (JStr ''es''))
             \<in> set (trace (snd (main example_env (File both_keys_catalog))))" by code_simp
  have m: "main example_env (File both_keys_catalog) =
             (fst (main example_env (File both_keys_catalog)),
              snd (main example_env (File both_keys_catalog)))" by simp
  have tr: "truthy (JStr ''already here'')" by simp
  note t1 = satisfied_entries_are_left_alone[of done_catalog example_env]
  note t2 = satisfied_entries_are_left_alone[of pending_catalog example_env
         "fst (main example_env (File pending_catalog))"
         "snd (main example_env (File pending_catalog))" deaf_env]
  note t3 = satisfied_entries_are_left_alone[of both_keys_catalog example_env
         "fst (main example_env (File both_keys_catalog))"
         "snd (main example_env (File both_keys_catalog))" _ "(0, 0)" done_entry
         "JStr ''already here''" "(0, 1)" "''/repo/modeles/x.wav''" "Some (JStr ''es'')"]
  have c1: "snd (main example_env (File done_catalog)) =
     \<lparr>data = done_catalog, disk = File done_catalog, updated_count = 0, trace = []\<rparr>"
    using t1 all by blast
  have c2: "snd (main deaf_env (disk (snd (main example_env (File pending_catalog))))) =
     \<lparr>data = data (snd (main example_env (File pending_catalog))),
      disk = disk (snd (main example_env (File pending_catalog))),
      updated_count = 0, trace = []\<rparr>"
    using t2 all2 d2 m2 by blast
  have c3: "entry_at (data (snd (main example_env (File both_keys_catalog)))) (0, 0) = Some done_entry"
    using t3 m e0 r tr by blast
  show ?thesis using c1 r d2 a2 c2 e0 c3 t e1 r1 by blast
qed

section \<open>What a run leaves unchanged\<close>

lemma map_key_absorb:
  assumes "\<And>v. f (g v) = f v"
  shows "map_key k f (map_key k g x) = map_key k f x"
proof (cases x)
  case (JObj kvs)
  have "AList.map_entry k f (AList.map_entry k g kvs) = AList.map_entry k f kvs"
    by (induction kvs) (auto simp: assms)
  then show ?thesis using JObj by simp
qed auto

lemma map_elems_absorb:
  assumes "\<And>e. f (g e) = f e"
  shows "map_elems f (map_index i g v) = map_elems f v"
proof (cases v)
  case (JArr xs)
  have "map f (xs[i := g (xs ! i)]) = map f xs"
    by (cases "i < length xs") (simp_all add: map_update assms list_update_beyond list_update_same_conv)
  then show ?thesis using JArr by simp
qed auto

lemma delitem_setitem: "delitem k (setitem k v e) = delitem k e"
  by (cases e) (auto simp: delete_update_same)

lemma models_key_map_key: "models_key (map_key k f g) = models_key g"
  by (simp add: models_key_eq root_key_map_key)

lemma without_ref_text_assign:
  "without_ref_text (assign_ref_text d p t) = without_ref_text d"
proof (cases "root_key d")
  case (Inl e)
  then show ?thesis by (simp add: assign_ref_text_def)
next
  case (Inr rk)
  let ?D = "map_elems (delitem ''ref_text'')"
  let ?G = "\<lambda>grp. case models_key grp of Inl e \<Rightarrow> grp | Inr mk \<Rightarrow> map_key mk ?D grp"
  let ?H = "\<lambda>grp. case models_key grp of
                    Inl e \<Rightarrow> grp
                  | Inr mk \<Rightarrow> map_key mk (map_index (snd p) (setitem ''ref_text'' (JStr t))) grp"
  have inner: "?D (map_index (snd p) (setitem ''ref_text'' (JStr t)) v) = ?D v" for v
    by (rule map_elems_absorb) (rule delitem_setitem)
  have GH: "?G (?H g) = ?G g" for g
  proof (cases "models_key g")
    case (Inl e)
    then show ?thesis by simp
  next
    case (Inr mk)
    then show ?thesis
      using map_key_absorb[of ?D "map_index (snd p) (setitem ''ref_text'' (JStr t))" mk g, OF inner]
      by (simp add: models_key_map_key)
  qed
  have outer: "map_elems ?G (map_index (fst p) ?H v) = map_elems ?G v" for v
    by (rule map_elems_absorb) (rule GH)
  show ?thesis
    using Inr map_key_absorb[of "map_elems ?G" "map_index (fst p) ?H" rk d, OF outer]
    by (simp add: without_ref_text_def assign_ref_text_def root_key_map_key)
qed

lemma without_ref_text_replay: "without_ref_text (replay d evs) = without_ref_text d"
  by (induction d evs rule: replay.induct) (auto simp: without_ref_text_assign)

lemma py_get_setitem_other: "k' \<noteq> k \<Longrightarrow> py_get (setitem k v e) k' = py_get e k'"
  by (cases e) (auto simp: update_conv')

lemma replay_other_attributes:
  "entry_at d p = Some e \<Longrightarrow>
     \<exists>e'. entry_at (replay d evs) p = Some e' \<and>
          (\<forall>k. k \<noteq> ''ref_text'' \<longrightarrow> py_get e' k = py_get e k)"
proof (induction d evs arbitrary: e rule: replay.induct)
  case (2 d q t es)
  let ?e1 = "if p = q then setitem ''ref_text'' (JStr t) e else e"
  have "entry_at (assign_ref_text d q t) p = Some ?e1"
    using "2.prems" by (auto simp: entry_at_assign)
  from "2.IH"[OF this] obtain e' where
    "entry_at (replay (assign_ref_text d q t) es) p = Some e'"
    "\<forall>k. k \<noteq> ''ref_text'' \<longrightarrow> py_get e' k = py_get ?e1 k" by blast
  then show ?case by (auto simp: py_get_setitem_other)
qed auto

text \<open>
  C8. A run writes nothing but \<^verbatim>\<open>ref_text\<close>. The catalog at the end, with the
  \<^verbatim>\<open>ref_text\<close> of every entry removed, is the catalog of the start with the same
  removal: the root, the groups, their order and every other attribute are the
  same. It is the catalog of the start with the assignments of the trace applied,
  and no entry is assigned twice. An entry of the start is an entry at the end with
  the same \<^verbatim>\<open>name\<close>, \<^verbatim>\<open>file\<close>, \<^verbatim>\<open>language\<close> and every other key but \<^verbatim>\<open>ref_text\<close>,
  and no entry appears.
\<close>

theorem only_ref_text_is_written:
  "main env (File d0) = (x, s) \<longrightarrow>
     without_ref_text (data s) = without_ref_text d0 \<and>
     data s = replay d0 (trace s) \<and>
     distinct (assigned (trace s)) \<and>
     (entry_at d0 p = Some e \<longrightarrow>
        (\<exists>e'. entry_at (data s) p = Some e' \<and>
              py_get e' ''name'' = py_get e ''name'' \<and>
              py_get e' ''file'' = py_get e ''file'' \<and>
              py_get e' ''language'' = py_get e ''language'' \<and>
              (\<forall>k. k \<noteq> ''ref_text'' \<longrightarrow> py_get e' k = py_get e k))) \<and>
     (entry_at d0 p = None \<longrightarrow> entry_at (data s) p = None)"
proof
  assume m: "main env (File d0) = (x, s)"
  from main_trace[OF m] have o: "orderly env d0 (trace s)" and d: "data s = replay d0 (trace s)"
    by simp_all
  have "\<not> pending d0 p" if "entry_at d0 p = None" using that by (simp add: pending_def)
  from orderly_not_pending_kept[OF o this]
  have none: "entry_at d0 p = None \<longrightarrow> entry_at (data s) p = None" using d by simp
  have attrs: "entry_at d0 p = Some e \<longrightarrow>
        (\<exists>e'. entry_at (data s) p = Some e' \<and>
              py_get e' ''name'' = py_get e ''name'' \<and>
              py_get e' ''file'' = py_get e ''file'' \<and>
              py_get e' ''language'' = py_get e ''language'' \<and>
              (\<forall>k. k \<noteq> ''ref_text'' \<longrightarrow> py_get e' k = py_get e k))"
  proof
    assume "entry_at d0 p = Some e"
    from replay_other_attributes[OF this, of "trace s"] obtain e' where
      e': "entry_at (data s) p = Some e'" "\<forall>k. k \<noteq> ''ref_text'' \<longrightarrow> py_get e' k = py_get e k"
      using d by auto
    from e'(2) have "py_get e' ''name'' = py_get e ''name''" "py_get e' ''file'' = py_get e ''file''"
      "py_get e' ''language'' = py_get e ''language''" by simp_all
    with e' show "\<exists>e'. entry_at (data s) p = Some e' \<and>
              py_get e' ''name'' = py_get e ''name'' \<and>
              py_get e' ''file'' = py_get e ''file'' \<and>
              py_get e' ''language'' = py_get e ''language'' \<and>
              (\<forall>k. k \<noteq> ''ref_text'' \<longrightarrow> py_get e' k = py_get e k)" by blast
  qed
  show "without_ref_text (data s) = without_ref_text d0 \<and>
     data s = replay d0 (trace s) \<and>
     distinct (assigned (trace s)) \<and>
     (entry_at d0 p = Some e \<longrightarrow>
        (\<exists>e'. entry_at (data s) p = Some e' \<and>
              py_get e' ''name'' = py_get e ''name'' \<and>
              py_get e' ''file'' = py_get e ''file'' \<and>
              py_get e' ''language'' = py_get e ''language'' \<and>
              (\<forall>k. k \<noteq> ''ref_text'' \<longrightarrow> py_get e' k = py_get e k))) \<and>
     (entry_at d0 p = None \<longrightarrow> entry_at (data s) p = None)"
    using d none attrs orderly_distinct_assigned[OF o] by (simp add: without_ref_text_replay)
qed

theorem only_ref_text_is_written_witness:
  "main example_env (File both_keys_catalog) =
     (fst (main example_env (File both_keys_catalog)), snd (main example_env (File both_keys_catalog))) \<and>
   entry_at both_keys_catalog (0, 1) = Some spanish_entry \<and>
   without_ref_text (data (snd (main example_env (File both_keys_catalog)))) =
     without_ref_text both_keys_catalog \<and>
   assigned (trace (snd (main example_env (File both_keys_catalog)))) = [(0, 1)] \<and>
   entry_at (data (snd (main example_env (File both_keys_catalog)))) (0, 1) =
     Some (JObj [(''name'', JStr ''Luz''), (''file'', JStr ''models/x.wav''),
                 (''language'', JStr ''es''), (''ref_text'', JStr ''hola'')]) \<and>
   entry_at both_keys_catalog (5, 0) = None \<and>
   entry_at (data (snd (main example_env (File both_keys_catalog)))) (5, 0) = None"
proof -
  have a: "assigned (trace (snd (main example_env (File both_keys_catalog)))) = [(0, 1)]"
    by code_simp
  have e1: "entry_at both_keys_catalog (0, 1) = Some spanish_entry" by code_simp
  have e2: "entry_at (data (snd (main example_env (File both_keys_catalog)))) (0, 1) =
     Some (JObj [(''name'', JStr ''Luz''), (''file'', JStr ''models/x.wav''),
                 (''language'', JStr ''es''), (''ref_text'', JStr ''hola'')])" by code_simp
  have n: "entry_at both_keys_catalog (5, 0) = None" by code_simp
  have m: "main example_env (File both_keys_catalog) =
     (fst (main example_env (File both_keys_catalog)), snd (main example_env (File both_keys_catalog)))"
    by simp
  note th = only_ref_text_is_written[of example_env both_keys_catalog
         "fst (main example_env (File both_keys_catalog))"
         "snd (main example_env (File both_keys_catalog))" "(5, 0)" spanish_entry]
  note th' = only_ref_text_is_written[of example_env both_keys_catalog
         "fst (main example_env (File both_keys_catalog))"
         "snd (main example_env (File both_keys_catalog))" "(0, 1)" spanish_entry]
  show ?thesis using th th' a e1 e2 n m by blast
qed

section \<open>One turn of the loop\<close>

lemma try_body_error:
  "entry_at (data s) p = Some m \<Longrightarrow> process_single_model env p m = (ev, Inl e) \<Longrightarrow>
     try_body env p s = (s\<lparr>trace := trace s @ Begin p # ev\<rparr>, Some e)"
  by (simp add: try_body_def)

lemma try_body_skip:
  "entry_at (data s) p = Some m \<Longrightarrow> process_single_model env p m = (ev, Inr (False, None)) \<Longrightarrow>
     try_body env p s = (s\<lparr>trace := trace s @ Begin p # ev\<rparr>, None)"
  by (simp add: try_body_def)

lemma try_body_commit:
  assumes "entry_at (data s) p = Some m"
    and "process_single_model env p m = (ev, Inr (True, Some t))"
  shows "try_body env p s =
     (let d' = assign_ref_text (data s) p t;
          saved = save_models_json (commit_save env p) d' (disk s);
          s3 = s\<lparr>data := d', disk := fst saved, updated_count := updated_count s + 1,
                 trace := trace s @ Begin p # ev @ [Assign p t, Save d' (commit_save env p)]\<rparr>
      in case snd saved of
           Some e \<Rightarrow> (s3, Some e)
         | None \<Rightarrow>
             (s3\<lparr>trace := trace s3 @ [Pause]\<rparr>,
              case pause env p of SleepOk \<Rightarrow> None | SleepInterrupt \<Rightarrow> Some KeyboardInterrupt))"
proof -
  from psm_updated[of env p m t] assms(2) have "t \<noteq> []" by simp
  then show ?thesis
    using assms
    by (cases "commit_save env p"; cases "pause env p") (simp_all add: try_body_def Let_def)
qed

lemma psm_transcribed:
  assumes "needs_ref_text m = Inr True" and "py_get m ''file'' = Inr (JStr rel)" and "rel \<noteq> []"
    and "py_get m ''language'' = Inr lang" and "path_exists env (audio_file_abs env rel)"
  shows "process_single_model env p m =
     ([Transcribe p (audio_file_abs env rel) (if truthy lang then Some lang else None)],
      case transcribe env p (audio_file_abs env rel) (if truthy lang then Some lang else None) of
        WText raw \<Rightarrow> if strip raw \<noteq> [] then Inr (True, Some (strip raw)) else Inr (False, None)
      | WException \<Rightarrow> Inr (False, None)
      | WInterrupt \<Rightarrow> Inl KeyboardInterrupt)"
  using assms
  by (cases m)
     (auto simp: process_single_model_def transcribe_audio_def needs_ref_text_def Let_def
       split: whisper_outcome.splits option.splits)

lemma orderly_split:
  "orderly env d (pre @ Assign p t # post) \<Longrightarrow>
     \<exists>rest. post = Save (replay d (pre @ [Assign p t])) (commit_save env p) # rest \<and>
            orderly env d (pre @ [Assign p t, Save (replay d (pre @ [Assign p t])) (commit_save env p)])"
proof (induction env d pre rule: orderly.induct)
  case (1 env d)
  then show ?case
  proof (cases post)
    case Nil
    with 1 show ?thesis by simp
  next
    case (Cons e es)
    with 1 show ?thesis by (cases e) auto
  qed
next
  case (2 env d q u d' outcome es)
  then show ?case by auto
qed auto

lemma iteration_commit_events:
  assumes "entry_at (data s) p = Some m"
    and "process_single_model env p m = (ev, Inr (True, Some t))"
  shows "(\<exists>rest. new_events s (snd (iteration env p s)) =
            Begin p # ev @ [Assign p t, Save (assign_ref_text (data s) p t) (commit_save env p)] @ rest \<and>
            (\<forall>q. Begin q \<notin> set rest)) \<and>
         data (snd (iteration env p s)) = assign_ref_text (data s) p t"
  using try_body_commit[OF assms]
  by (cases "commit_save env p"; cases "pause env p"; cases "final_save env")
     (simp_all add: iteration_def new_events_def Let_def)

lemma replay_commit:
  "replay d (pre @ [Assign q t, Save dd outcome]) = replay d (pre @ [Assign q t])"
  by (simp add: replay_append)

text \<open>
  C1. When the transcription of an entry returns a text that is not empty after
  stripping, the turn of that entry assigns the text to its \<^verbatim>\<open>ref_text\<close> and at once
  calls \<^verbatim>\<open>save_models_json\<close> on the whole catalog, and nothing of another entry
  begins in between. In the trace of any run, every assignment is followed
  immediately by the save of the catalog as it is in memory at that moment, which
  holds the text just assigned and the texts of all earlier assignments; when that
  save returns, the file holds this catalog. At the end of the run the catalog in
  memory and the file are what the assignments and the saves of the trace make of
  the loaded catalog.
\<close>

theorem every_update_is_saved_before_the_next_entry:
  "(entry_at (data s) p = Some m \<and> needs_ref_text m = Inr True \<and>
    py_get m ''file'' = Inr (JStr rel) \<and> rel \<noteq> [] \<and> py_get m ''language'' = Inr lang \<and>
    path_exists env (audio_file_abs env rel) \<and>
    transcribe env p (audio_file_abs env rel) (if truthy lang then Some lang else None) = WText raw \<and>
    strip raw \<noteq> [] \<longrightarrow>
      (\<exists>rest. new_events s (snd (iteration env p s)) =
          [Begin p,
           Transcribe p (audio_file_abs env rel) (if truthy lang then Some lang else None),
           Assign p (strip raw),
           Save (assign_ref_text (data s) p (strip raw)) (commit_save env p)] @ rest \<and>
          (\<forall>q. Begin q \<notin> set rest)) \<and>
      data (snd (iteration env p s)) = assign_ref_text (data s) p (strip raw)) \<and>
   (main env (File d0) = (x, s') \<and> trace s' = pre @ Assign q t # post \<longrightarrow>
      (\<exists>rest. post = Save (replay d0 (pre @ [Assign q t])) (commit_save env q) # rest) \<and>
      (\<exists>e. entry_at (replay d0 (pre @ [Assign q t])) q = Some e \<and>
           py_get e ''ref_text'' = Inr (JStr t)) \<and>
      (\<forall>q' u. Assign q' u \<in> set pre \<longrightarrow>
         (\<exists>e. entry_at (replay d0 (pre @ [Assign q t])) q' = Some e \<and>
              py_get e ''ref_text'' = Inr (JStr u))) \<and>
      (commit_save env q = SaveOk \<longrightarrow>
         disk_after (File d0)
           (pre @ [Assign q t, Save (replay d0 (pre @ [Assign q t])) (commit_save env q)]) =
         File (replay d0 (pre @ [Assign q t])))) \<and>
   (main env (File d0) = (x, s') \<longrightarrow>
      data s' = replay d0 (trace s') \<and> disk s' = disk_after (File d0) (trace s'))"
proof (intro conjI impI)
  assume a: "entry_at (data s) p = Some m \<and> needs_ref_text m = Inr True \<and>
    py_get m ''file'' = Inr (JStr rel) \<and> rel \<noteq> [] \<and> py_get m ''language'' = Inr lang \<and>
    path_exists env (audio_file_abs env rel) \<and>
    transcribe env p (audio_file_abs env rel) (if truthy lang then Some lang else None) = WText raw \<and>
    strip raw \<noteq> []"
  let ?opts = "if truthy lang then Some lang else None"
  from a psm_transcribed[of m rel lang env p]
  have psm: "process_single_model env p m =
      ([Transcribe p (audio_file_abs env rel) ?opts], Inr (True, Some (strip raw)))"
    by simp
  from a have e: "entry_at (data s) p = Some m" by simp
  from iteration_commit_events[OF e psm]
  show "\<exists>rest. new_events s (snd (iteration env p s)) =
          [Begin p, Transcribe p (audio_file_abs env rel) ?opts, Assign p (strip raw),
           Save (assign_ref_text (data s) p (strip raw)) (commit_save env p)] @ rest \<and>
          (\<forall>q. Begin q \<notin> set rest)"
    and "data (snd (iteration env p s)) = assign_ref_text (data s) p (strip raw)"
    by simp_all
next
  assume a: "main env (File d0) = (x, s') \<and> trace s' = pre @ Assign q t # post"
  let ?D = "replay d0 (pre @ [Assign q t])"
  let ?c = "pre @ [Assign q t, Save ?D (commit_save env q)]"
  from a main_trace[of env d0 x s'] have "orderly env d0 (pre @ Assign q t # post)" by simp
  from orderly_split[OF this] obtain rest where
    post: "post = Save ?D (commit_save env q) # rest" and oc: "orderly env d0 ?c" by blast
  show "\<exists>rest. post = Save ?D (commit_save env q) # rest" using post by blast
  have rc: "replay d0 ?c = ?D" by (rule replay_commit)
  have "Assign q t \<in> set ?c" by simp
  from orderly_assigned_text[OF oc this] rc
  show "\<exists>e. entry_at ?D q = Some e \<and> py_get e ''ref_text'' = Inr (JStr t)" by simp
  show "\<forall>q' u. Assign q' u \<in> set pre \<longrightarrow>
         (\<exists>e. entry_at ?D q' = Some e \<and> py_get e ''ref_text'' = Inr (JStr u))"
  proof (intro allI impI)
    fix q' u assume "Assign q' u \<in> set pre"
    then have "Assign q' u \<in> set ?c" by simp
    from orderly_assigned_text[OF oc this] rc
    show "\<exists>e. entry_at ?D q' = Some e \<and> py_get e ''ref_text'' = Inr (JStr u)" by simp
  qed
  show "disk_after (File d0) ?c = File ?D" if "commit_save env q = SaveOk"
    using that by (simp add: disk_after_append)
next
  assume "main env (File d0) = (x, s')"
  from main_trace[OF this]
  show "data s' = replay d0 (trace s')" and "disk s' = disk_after (File d0) (trace s')"
    by simp_all
qed


theorem every_update_is_saved_before_the_next_entry_witness:
  "entry_at (data (loaded pending_catalog)) (0, 0) = Some english_entry \<and>
   needs_ref_text english_entry = Inr True \<and>
   py_get english_entry ''file'' = Inr (JStr ''models/b.wav'') \<and>
   ''models/b.wav'' \<noteq> [] \<and>
   py_get english_entry ''language'' = Inr JNull \<and>
   path_exists example_env (audio_file_abs example_env ''models/b.wav'') \<and>
   transcribe example_env (0, 0) (audio_file_abs example_env ''models/b.wav'')
     (if truthy JNull then Some JNull else None) = WText '' hola '' \<and>
   strip '' hola '' \<noteq> [] \<and>
   data (snd (iteration example_env (0, 0) (loaded pending_catalog))) =
     assign_ref_text (data (loaded pending_catalog)) (0, 0) (strip '' hola '') \<and>
   main example_env (File pending_catalog) =
     (fst (main example_env (File pending_catalog)), snd (main example_env (File pending_catalog))) \<and>
   trace (snd (main example_env (File pending_catalog))) =
     [Begin (0, 0), Transcribe (0, 0) ''/repo/models/b.wav'' None, Assign (0, 0) ''hola'',
      Save (assign_ref_text pending_catalog (0, 0) ''hola'') SaveOk, Pause,
      Begin (0, 1), Transcribe (0, 1) ''/repo/modeles/x.wav'' (Some (JStr ''es''))] @
     Assign (0, 1) ''hola'' #
     [Save (assign_ref_text (assign_ref_text pending_catalog (0, 0) ''hola'') (0, 1) ''hola'') SaveOk,
      Pause] \<and>
   commit_save example_env (0, 1) = SaveOk \<and>
   Assign (0, 0) ''hola'' \<in> set
     [Begin (0, 0), Transcribe (0, 0) ''/repo/models/b.wav'' None, Assign (0, 0) ''hola'',
      Save (assign_ref_text pending_catalog (0, 0) ''hola'') SaveOk, Pause,
      Begin (0, 1), Transcribe (0, 1) ''/repo/modeles/x.wav'' (Some (JStr ''es''))] \<and>
   (\<exists>e. entry_at (assign_ref_text (assign_ref_text pending_catalog (0, 0) ''hola'') (0, 1) ''hola'')
          (0, 0) = Some e \<and> py_get e ''ref_text'' = Inr (JStr ''hola'')) \<and>
   (\<exists>e. entry_at (assign_ref_text (assign_ref_text pending_catalog (0, 0) ''hola'') (0, 1) ''hola'')
          (0, 1) = Some e \<and> py_get e ''ref_text'' = Inr (JStr ''hola'')) \<and>
   disk (snd (main example_env (File pending_catalog))) =
     File (assign_ref_text (assign_ref_text pending_catalog (0, 0) ''hola'') (0, 1) ''hola'')"
proof -
  let ?pre = "[Begin (0, 0), Transcribe (0, 0) ''/repo/models/b.wav'' None, Assign (0, 0) ''hola'',
      Save (assign_ref_text pending_catalog (0, 0) ''hola'') SaveOk, Pause,
      Begin (0, 1), Transcribe (0, 1) ''/repo/modeles/x.wav'' (Some (JStr ''es''))]"
  let ?D = "assign_ref_text (assign_ref_text pending_catalog (0, 0) ''hola'') (0, 1) ''hola''"
  let ?post = "[Save ?D SaveOk, Pause]"
  have h1: "entry_at (data (loaded pending_catalog)) (0, 0) = Some english_entry" by code_simp
  have h2: "needs_ref_text english_entry = Inr True" by code_simp
  have h3: "py_get english_entry ''file'' = Inr (JStr ''models/b.wav'')" by code_simp
  have h4: "py_get english_entry ''language'' = Inr JNull" by code_simp
  have h5: "path_exists example_env (audio_file_abs example_env ''models/b.wav'')" by code_simp
  have h6: "transcribe example_env (0, 0) (audio_file_abs example_env ''models/b.wav'')
     (if truthy JNull then Some JNull else None) = WText '' hola ''" by code_simp
  have h7: "strip '' hola '' \<noteq> []" by code_simp
  have m: "main example_env (File pending_catalog) =
     (fst (main example_env (File pending_catalog)), snd (main example_env (File pending_catalog)))"
    by simp
  have t: "trace (snd (main example_env (File pending_catalog))) = ?pre @ Assign (0, 1) ''hola'' # ?post"
    by code_simp
  have c: "commit_save example_env (0, 1) = SaveOk" by code_simp
  have r: "replay pending_catalog (?pre @ [Assign (0, 1) ''hola'']) = ?D" by simp
  have d: "disk (snd (main example_env (File pending_catalog))) = File ?D" by code_simp
  note th = every_update_is_saved_before_the_next_entry[of
      "loaded pending_catalog" "(0, 0)" english_entry "''models/b.wav''" JNull example_env "'' hola ''"
      pending_catalog "fst (main example_env (File pending_catalog))"
      "snd (main example_env (File pending_catalog))" ?pre "(0, 1)" "''hola''" ?post]
  have "Assign (0, 0) ''hola'' \<in> set ?pre" by simp
  with th h1 h2 h3 h4 h5 h6 h7 m t c d show ?thesis unfolding r by blast
qed

section \<open>Entries that are skipped\<close>

lemma strip_empty_iff: "strip raw = [] \<longleftrightarrow> (\<forall>c\<in>set raw. py_isspace c)"
proof
  assume "strip raw = []"
  then have "\<forall>c\<in>set (dropWhile py_isspace raw). py_isspace c"
    by (simp add: strip_def dropWhile_eq_Nil_conv)
  then have "dropWhile py_isspace raw = []"
    using hd_dropWhile[of py_isspace raw] hd_in_set[of "dropWhile py_isspace raw"] by blast
  then show "\<forall>c\<in>set raw. py_isspace c" by (simp add: dropWhile_eq_Nil_conv)
next
  assume "\<forall>c\<in>set raw. py_isspace c"
  then have d: "dropWhile py_isspace raw = []" by (simp add: dropWhile_eq_Nil_conv)
  show "strip raw = []" unfolding strip_def d by simp
qed

lemma iteration_skip:
  assumes "entry_at (data s) p = Some m"
    and "process_single_model env p m = (ev, Inr (False, None))"
  shows "iteration env p s = (None, s\<lparr>trace := trace s @ Begin p # ev\<rparr>)"
  using try_body_skip[OF assms] by (simp add: iteration_def)

lemma iteration_error:
  assumes "entry_at (data s) p = Some m"
    and "process_single_model env p m = (ev, Inl e)" and "e \<noteq> KeyboardInterrupt"
  shows "iteration env p s = (None, s\<lparr>trace := trace s @ Begin p # ev\<rparr>)"
  using try_body_error[OF assms(1,2)] assms(3) by (simp add: iteration_def)

text \<open>
  C6. The stripped output of the model is empty exactly when the output is empty or
  made of white space only. For such an output \<^verbatim>\<open>process_single_model\<close> reports no
  update, and the turn of the entry leaves the catalog in memory, the file and the
  counter as they were: the trace gains the transcription and nothing else, no
  assignment and no save, and the entry is still pending.
\<close>

theorem blank_transcript_is_a_failure:
  "(strip raw = [] \<longleftrightarrow> (\<forall>c\<in>set raw. py_isspace c)) \<and>
   (entry_at (data s) p = Some m \<and> needs_ref_text m = Inr True \<and>
    py_get m ''file'' = Inr (JStr rel) \<and> rel \<noteq> [] \<and> py_get m ''language'' = Inr lang \<and>
    path_exists env (audio_file_abs env rel) \<and>
    transcribe env p (audio_file_abs env rel) (if truthy lang then Some lang else None) = WText raw \<and>
    strip raw = [] \<longrightarrow>
      process_single_model env p m =
        ([Transcribe p (audio_file_abs env rel) (if truthy lang then Some lang else None)],
         Inr (False, None)) \<and>
      iteration env p s =
        (None, s\<lparr>trace := trace s @
          [Begin p, Transcribe p (audio_file_abs env rel) (if truthy lang then Some lang else None)]\<rparr>) \<and>
      pending (data (snd (iteration env p s))) p)"
proof (intro conjI impI)
  show "strip raw = [] \<longleftrightarrow> (\<forall>c\<in>set raw. py_isspace c)" by (rule strip_empty_iff)
next
  assume a: "entry_at (data s) p = Some m \<and> needs_ref_text m = Inr True \<and>
    py_get m ''file'' = Inr (JStr rel) \<and> rel \<noteq> [] \<and> py_get m ''language'' = Inr lang \<and>
    path_exists env (audio_file_abs env rel) \<and>
    transcribe env p (audio_file_abs env rel) (if truthy lang then Some lang else None) = WText raw \<and>
    strip raw = []"
  let ?opts = "if truthy lang then Some lang else None"
  from a psm_transcribed[of m rel lang env p]
  show psm: "process_single_model env p m =
      ([Transcribe p (audio_file_abs env rel) ?opts], Inr (False, None))" by simp
  from a have e: "entry_at (data s) p = Some m" by simp
  from iteration_skip[OF e psm]
  show it: "iteration env p s =
      (None, s\<lparr>trace := trace s @ [Begin p, Transcribe p (audio_file_abs env rel) ?opts]\<rparr>)"
    by simp
  show "pending (data (snd (iteration env p s))) p"
    using a by (simp add: it pending_def)
qed

theorem blank_transcript_is_a_failure_witness:
  "py_isspace (CHR 0x20) \<and> py_isspace (CHR 0x0A) \<and> py_isspace (CHR 0x09) \<and>
   strip [CHR 0x20, CHR 0x0A, CHR 0x09] = [] \<and>
   entry_at (data (loaded pending_catalog)) (0, 0) = Some english_entry \<and>
   needs_ref_text english_entry = Inr True \<and>
   py_get english_entry ''file'' = Inr (JStr ''models/b.wav'') \<and>
   ''models/b.wav'' \<noteq> [] \<and>
   py_get english_entry ''language'' = Inr JNull \<and>
   path_exists blank_env (audio_file_abs blank_env ''models/b.wav'') \<and>
   transcribe blank_env (0, 0) (audio_file_abs blank_env ''models/b.wav'')
     (if truthy JNull then Some JNull else None) = WText [CHR 0x20, CHR 0x0A, CHR 0x09] \<and>
   iteration blank_env (0, 0) (loaded pending_catalog) =
     (None, (loaded pending_catalog)\<lparr>trace := trace (loaded pending_catalog) @
        [Begin (0, 0), Transcribe (0, 0) (audio_file_abs blank_env ''models/b.wav'')
           (if truthy JNull then Some JNull else None)]\<rparr>) \<and>
   pending (data (snd (iteration blank_env (0, 0) (loaded pending_catalog)))) (0, 0)"
proof -
  have w: "py_isspace (CHR 0x20) \<and> py_isspace (CHR 0x0A) \<and> py_isspace (CHR 0x09)"
    by (simp add: py_isspace_def)
  then have w': "\<forall>c\<in>set [CHR 0x20, CHR 0x0A, CHR 0x09]. py_isspace c" by simp
  have h1: "entry_at (data (loaded pending_catalog)) (0, 0) = Some english_entry" by code_simp
  have h2: "needs_ref_text english_entry = Inr True" by code_simp
  have h3: "py_get english_entry ''file'' = Inr (JStr ''models/b.wav'')" by code_simp
  have h4: "py_get english_entry ''language'' = Inr JNull" by code_simp
  have h5: "path_exists blank_env (audio_file_abs blank_env ''models/b.wav'')" by code_simp
  have h6: "transcribe blank_env (0, 0) (audio_file_abs blank_env ''models/b.wav'')
     (if truthy JNull then Some JNull else None) = WText [CHR 0x20, CHR 0x0A, CHR 0x09]" by code_simp
  note th = blank_transcript_is_a_failure[of "[CHR 0x20, CHR 0x0A, CHR 0x09]"
      "loaded pending_catalog" "(0, 0)" english_entry "''models/b.wav''" JNull blank_env]
  show ?thesis using th w w' h1 h2 h3 h4 h5 h6 by blast
qed

section \<open>Failures of one entry\<close>

lemma psm_no_file:
  "needs_ref_text m = Inr True \<Longrightarrow> py_get m ''file'' = Inr f \<Longrightarrow> \<not> truthy f \<Longrightarrow>
     process_single_model env p m = ([], Inr (False, None))"
  by (cases m) (auto simp: process_single_model_def needs_ref_text_def)

lemma psm_bad_file:
  "needs_ref_text m = Inr True \<Longrightarrow> py_get m ''file'' = Inr f \<Longrightarrow> truthy f \<Longrightarrow>
     \<forall>rel. f \<noteq> JStr rel \<Longrightarrow> process_single_model env p m = ([], Inl TypeError)"
  by (cases m; cases f) (auto simp: process_single_model_def needs_ref_text_def)

lemma psm_missing:
  "needs_ref_text m = Inr True \<Longrightarrow> py_get m ''file'' = Inr (JStr rel) \<Longrightarrow>
     \<not> path_exists env (audio_file_abs env rel) \<Longrightarrow>
     process_single_model env p m = ([], Inr (False, None))"
  by (cases m) (auto simp: process_single_model_def needs_ref_text_def transcribe_audio_def)

lemma process_tasks_continue:
  "iteration env p s = (None, s') \<Longrightarrow> process_tasks env (p # ps) s = process_tasks env ps s'"
  by simp

lemma iteration_save_fault:
  assumes "entry_at (data s) p = Some m"
    and "process_single_model env p m = (ev, Inr (True, Some t))"
    and "commit_save env p = SaveOpenError \<or> commit_save env p = SaveWriteError"
  shows "fst (iteration env p s) = None \<and>
         data (snd (iteration env p s)) = assign_ref_text (data s) p t"
  using try_body_commit[OF assms(1,2)] assms(3)
  by (auto simp: iteration_def Let_def)

text \<open>
  C4, as the code has it. A failure that happens before the assignment leaves the
  catalog in memory, the file and the counter untouched, adds no assignment and no
  save to the trace, and the loop goes on with the next task: a \<^verbatim>\<open>file\<close> that is
  missing or empty, a \<^verbatim>\<open>file\<close> that is not a string (\<^verbatim>\<open>os.path.join\<close> raises), a path
  that exists under neither spelling, an exception of the model. An exception of
  the save that follows the assignment is caught by the same handler and the loop
  goes on too, but the entry keeps in memory the text it was assigned.
\<close>

theorem failure_before_the_update_skips_the_entry:
  "(entry_at (data s) p = Some m \<and> needs_ref_text m = Inr True \<and> py_get m ''file'' = Inr f \<and>
    (\<not> truthy f \<or> (\<forall>rel. f \<noteq> JStr rel) \<or>
     (\<exists>rel. f = JStr rel \<and> \<not> path_exists env (audio_file_abs env rel))) \<longrightarrow>
      iteration env p s = (None, s\<lparr>trace := trace s @ [Begin p]\<rparr>) \<and>
      process_tasks env (p # ps) s = process_tasks env ps (s\<lparr>trace := trace s @ [Begin p]\<rparr>)) \<and>
   (entry_at (data s) p = Some m \<and> needs_ref_text m = Inr True \<and>
    py_get m ''file'' = Inr (JStr rel) \<and> rel \<noteq> [] \<and> py_get m ''language'' = Inr lang \<and>
    path_exists env (audio_file_abs env rel) \<and>
    transcribe env p (audio_file_abs env rel) (if truthy lang then Some lang else None) = WException \<longrightarrow>
      iteration env p s =
        (None, s\<lparr>trace := trace s @
           [Begin p, Transcribe p (audio_file_abs env rel) (if truthy lang then Some lang else None)]\<rparr>) \<and>
      process_tasks env (p # ps) s =
        process_tasks env ps (s\<lparr>trace := trace s @
           [Begin p, Transcribe p (audio_file_abs env rel) (if truthy lang then Some lang else None)]\<rparr>)) \<and>
   (entry_at (data s) p = Some m \<and> needs_ref_text m = Inr True \<and>
    py_get m ''file'' = Inr (JStr rel) \<and> rel \<noteq> [] \<and> py_get m ''language'' = Inr lang \<and>
    path_exists env (audio_file_abs env rel) \<and>
    transcribe env p (audio_file_abs env rel) (if truthy lang then Some lang else None) = WText raw \<and>
    strip raw \<noteq> [] \<and>
    (commit_save env p = SaveOpenError \<or> commit_save env p = SaveWriteError) \<longrightarrow>
      fst (iteration env p s) = None \<and>
      data (snd (iteration env p s)) = assign_ref_text (data s) p (strip raw) \<and>
      process_tasks env (p # ps) s = process_tasks env ps (snd (iteration env p s)))"
proof (intro conjI impI)
  assume a: "entry_at (data s) p = Some m \<and> needs_ref_text m = Inr True \<and> py_get m ''file'' = Inr f \<and>
    (\<not> truthy f \<or> (\<forall>rel. f \<noteq> JStr rel) \<or>
     (\<exists>rel. f = JStr rel \<and> \<not> path_exists env (audio_file_abs env rel)))"
  then have e: "entry_at (data s) p = Some m" by simp
  have "process_single_model env p m = ([], Inr (False, None)) \<or>
        process_single_model env p m = ([], Inl TypeError)"
  proof (cases "truthy f")
    case False
    with a show ?thesis by (simp add: psm_no_file)
  next
    case True
    show ?thesis
    proof (cases "\<forall>rel. f \<noteq> JStr rel")
      case True
      with a \<open>truthy f\<close> show ?thesis by (simp add: psm_bad_file)
    next
      case False
      with a \<open>truthy f\<close> obtain rel where "f = JStr rel" "\<not> path_exists env (audio_file_abs env rel)"
        by blast
      with a show ?thesis by (simp add: psm_missing)
    qed
  qed
  then show it: "iteration env p s = (None, s\<lparr>trace := trace s @ [Begin p]\<rparr>)"
    using iteration_skip[OF e, of env "[]"] iteration_error[OF e, of env "[]" TypeError] by auto
  show "process_tasks env (p # ps) s = process_tasks env ps (s\<lparr>trace := trace s @ [Begin p]\<rparr>)"
    by (rule process_tasks_continue[OF it])
next
  assume a: "entry_at (data s) p = Some m \<and> needs_ref_text m = Inr True \<and>
    py_get m ''file'' = Inr (JStr rel) \<and> rel \<noteq> [] \<and> py_get m ''language'' = Inr lang \<and>
    path_exists env (audio_file_abs env rel) \<and>
    transcribe env p (audio_file_abs env rel) (if truthy lang then Some lang else None) = WException"
  let ?opts = "if truthy lang then Some lang else None"
  from a have e: "entry_at (data s) p = Some m" by simp
  from a psm_transcribed[of m rel lang env p]
  have psm: "process_single_model env p m =
      ([Transcribe p (audio_file_abs env rel) ?opts], Inr (False, None))" by simp
  from iteration_skip[OF e psm]
  show it: "iteration env p s =
      (None, s\<lparr>trace := trace s @ [Begin p, Transcribe p (audio_file_abs env rel) ?opts]\<rparr>)"
    by simp
  show "process_tasks env (p # ps) s =
        process_tasks env ps (s\<lparr>trace := trace s @
           [Begin p, Transcribe p (audio_file_abs env rel) ?opts]\<rparr>)"
    by (rule process_tasks_continue[OF it])
next
  assume a: "entry_at (data s) p = Some m \<and> needs_ref_text m = Inr True \<and>
    py_get m ''file'' = Inr (JStr rel) \<and> rel \<noteq> [] \<and> py_get m ''language'' = Inr lang \<and>
    path_exists env (audio_file_abs env rel) \<and>
    transcribe env p (audio_file_abs env rel) (if truthy lang then Some lang else None) = WText raw \<and>
    strip raw \<noteq> [] \<and>
    (commit_save env p = SaveOpenError \<or> commit_save env p = SaveWriteError)"
  let ?opts = "if truthy lang then Some lang else None"
  from a have e: "entry_at (data s) p = Some m" by simp
  from a psm_transcribed[of m rel lang env p]
  have psm: "process_single_model env p m =
      ([Transcribe p (audio_file_abs env rel) ?opts], Inr (True, Some (strip raw)))" by simp
  from a have c: "commit_save env p = SaveOpenError \<or> commit_save env p = SaveWriteError" by simp
  from iteration_save_fault[OF e psm c]
  show f: "fst (iteration env p s) = None"
    and "data (snd (iteration env p s)) = assign_ref_text (data s) p (strip raw)" by simp_all
  then have "iteration env p s = (None, snd (iteration env p s))" by (metis prod.collapse)
  then show "process_tasks env (p # ps) s = process_tasks env ps (snd (iteration env p s))"
    by (rule process_tasks_continue)
qed


theorem failure_before_the_update_skips_the_entry_witness:
  "entry_at (data (loaded faulty_catalog)) (0, 0) = Some no_file_entry \<and>
   needs_ref_text no_file_entry = Inr True \<and>
   py_get no_file_entry ''file'' = Inr JNull \<and> \<not> truthy JNull \<and>
   iteration example_env (0, 0) (loaded faulty_catalog) =
     (None, (loaded faulty_catalog)\<lparr>trace := trace (loaded faulty_catalog) @ [Begin (0, 0)]\<rparr>) \<and>
   entry_at (data (loaded faulty_catalog)) (0, 1) = Some number_file_entry \<and>
   needs_ref_text number_file_entry = Inr True \<and>
   py_get number_file_entry ''file'' = Inr (JInt 7) \<and>
   iteration example_env (0, 1) (loaded faulty_catalog) =
     (None, (loaded faulty_catalog)\<lparr>trace := trace (loaded faulty_catalog) @ [Begin (0, 1)]\<rparr>) \<and>
   entry_at (data (loaded faulty_catalog)) (0, 2) = Some missing_file_entry \<and>
   needs_ref_text missing_file_entry = Inr True \<and>
   py_get missing_file_entry ''file'' = Inr (JStr ''models/zz.wav'') \<and>
   \<not> path_exists example_env (audio_file_abs example_env ''models/zz.wav'') \<and>
   process_tasks example_env [(0, 2), (0, 3)] (loaded faulty_catalog) =
     process_tasks example_env [(0, 3)]
       ((loaded faulty_catalog)\<lparr>trace := trace (loaded faulty_catalog) @ [Begin (0, 2)]\<rparr>) \<and>
   fst (main example_env (File faulty_catalog)) = Done \<and>
   assigned (trace (snd (main example_env (File faulty_catalog)))) = [(0, 3)] \<and>
   entry_at (data (snd (main example_env (File faulty_catalog)))) (0, 2) = Some missing_file_entry \<and>
   entry_at (data (loaded faulty_catalog)) (0, 3) = Some english_entry \<and>
   needs_ref_text english_entry = Inr True \<and>
   py_get english_entry ''file'' = Inr (JStr ''models/b.wav'') \<and>
   py_get english_entry ''language'' = Inr JNull \<and>
   path_exists deaf_env (audio_file_abs deaf_env ''models/b.wav'') \<and>
   transcribe deaf_env (0, 3) (audio_file_abs deaf_env ''models/b.wav'')
     (if truthy JNull then Some JNull else None) = WException \<and>
   iteration deaf_env (0, 3) (loaded faulty_catalog) =
     (None, (loaded faulty_catalog)\<lparr>trace := trace (loaded faulty_catalog) @
        [Begin (0, 3), Transcribe (0, 3) (audio_file_abs deaf_env ''models/b.wav'')
           (if truthy JNull then Some JNull else None)]\<rparr>) \<and>
   entry_at (data (loaded pending_catalog)) (0, 0) = Some english_entry \<and>
   path_exists full_disk_env (audio_file_abs full_disk_env ''models/b.wav'') \<and>
   transcribe full_disk_env (0, 0) (audio_file_abs full_disk_env ''models/b.wav'')
     (if truthy JNull then Some JNull else None) = WText '' hola '' \<and>
   strip '' hola '' \<noteq> [] \<and>
   commit_save full_disk_env (0, 0) = SaveWriteError \<and>
   fst (iteration full_disk_env (0, 0) (loaded pending_catalog)) = None \<and>
   data (snd (iteration full_disk_env (0, 0) (loaded pending_catalog))) =
     assign_ref_text (data (loaded pending_catalog)) (0, 0) (strip '' hola '')"
proof -
  have a1: "entry_at (data (loaded faulty_catalog)) (0, 0) = Some no_file_entry" by code_simp
  have a2: "needs_ref_text no_file_entry = Inr True" by code_simp
  have a3: "py_get no_file_entry ''file'' = Inr JNull" by code_simp
  have a4: "\<not> truthy JNull" by simp
  have b1: "entry_at (data (loaded faulty_catalog)) (0, 1) = Some number_file_entry" by code_simp
  have b2: "needs_ref_text number_file_entry = Inr True" by code_simp
  have b3: "py_get number_file_entry ''file'' = Inr (JInt 7)" by code_simp
  have b4: "\<forall>rel. JInt 7 \<noteq> JStr rel" by simp
  have c1: "entry_at (data (loaded faulty_catalog)) (0, 2) = Some missing_file_entry" by code_simp
  have c2: "needs_ref_text missing_file_entry = Inr True" by code_simp
  have c3: "py_get missing_file_entry ''file'' = Inr (JStr ''models/zz.wav'')" by code_simp
  have c4: "\<not> path_exists example_env (audio_file_abs example_env ''models/zz.wav'')" by code_simp
  have m1: "fst (main example_env (File faulty_catalog)) = Done" by code_simp
  have m2: "assigned (trace (snd (main example_env (File faulty_catalog)))) = [(0, 3)]" by code_simp
  have m3: "entry_at (data (snd (main example_env (File faulty_catalog)))) (0, 2) =
              Some missing_file_entry" by code_simp
  have d1: "entry_at (data (loaded faulty_catalog)) (0, 3) = Some english_entry" by code_simp
  have d2: "needs_ref_text english_entry = Inr True" by code_simp
  have d3: "py_get english_entry ''file'' = Inr (JStr ''models/b.wav'')" by code_simp
  have d4: "py_get english_entry ''language'' = Inr JNull" by code_simp
  have d5: "path_exists deaf_env (audio_file_abs deaf_env ''models/b.wav'')" by code_simp
  have d6: "transcribe deaf_env (0, 3) (audio_file_abs deaf_env ''models/b.wav'')
     (if truthy JNull then Some JNull else None) = WException" by code_simp
  have d7: "''models/b.wav'' \<noteq> []" by simp
  have f1: "entry_at (data (loaded pending_catalog)) (0, 0) = Some english_entry" by code_simp
  have f2: "path_exists full_disk_env (audio_file_abs full_disk_env ''models/b.wav'')" by code_simp
  have f3: "transcribe full_disk_env (0, 0) (audio_file_abs full_disk_env ''models/b.wav'')
     (if truthy JNull then Some JNull else None) = WText '' hola ''" by code_simp
  have f4: "strip '' hola '' \<noteq> []" by code_simp
  have f5: "commit_save full_disk_env (0, 0) = SaveWriteError" by code_simp
  note ta = failure_before_the_update_skips_the_entry[of "loaded faulty_catalog" "(0, 0)"
      no_file_entry JNull example_env "[]"]
  note tb = failure_before_the_update_skips_the_entry[of "loaded faulty_catalog" "(0, 1)"
      number_file_entry "JInt 7" example_env "[]"]
  note tc = failure_before_the_update_skips_the_entry[of "loaded faulty_catalog" "(0, 2)"
      missing_file_entry "JStr ''models/zz.wav''" example_env "[(0, 3)]"]
  note td = failure_before_the_update_skips_the_entry[of "loaded faulty_catalog" "(0, 3)"
      english_entry _ deaf_env "[]" "''models/b.wav''" JNull]
  note tf = failure_before_the_update_skips_the_entry[of "loaded pending_catalog" "(0, 0)"
      english_entry _ full_disk_env "[]" "''models/b.wav''" JNull "'' hola ''"]
  have ra: "iteration example_env (0, 0) (loaded faulty_catalog) =
     (None, (loaded faulty_catalog)\<lparr>trace := trace (loaded faulty_catalog) @ [Begin (0, 0)]\<rparr>)"
    using ta a1 a2 a3 a4 by blast
  have rb: "iteration example_env (0, 1) (loaded faulty_catalog) =
     (None, (loaded faulty_catalog)\<lparr>trace := trace (loaded faulty_catalog) @ [Begin (0, 1)]\<rparr>)"
    using tb b1 b2 b3 b4 by blast
  have rc: "process_tasks example_env [(0, 2), (0, 3)] (loaded faulty_catalog) =
     process_tasks example_env [(0, 3)]
       ((loaded faulty_catalog)\<lparr>trace := trace (loaded faulty_catalog) @ [Begin (0, 2)]\<rparr>)"
    using tc c1 c2 c3 c4 by blast
  have rd: "iteration deaf_env (0, 3) (loaded faulty_catalog) =
     (None, (loaded faulty_catalog)\<lparr>trace := trace (loaded faulty_catalog) @
        [Begin (0, 3), Transcribe (0, 3) (audio_file_abs deaf_env ''models/b.wav'')
           (if truthy JNull then Some JNull else None)]\<rparr>)"
    using td d1 d2 d3 d4 d5 d6 d7 by blast
  have rf: "fst (iteration full_disk_env (0, 0) (loaded pending_catalog)) = None \<and>
   data (snd (iteration full_disk_env (0, 0) (loaded pending_catalog))) =
     assign_ref_text (data (loaded pending_catalog)) (0, 0) (strip '' hola '')"
    using tf f1 d2 d3 d4 d7 f2 f3 f4 f5 by blast
  show ?thesis
    using a1 a2 a3 a4 ra b1 b2 b3 rb c1 c2 c3 c4 rc m1 m2 m3 d1 d2 d3 d4 d5 d6 rd f1 f2 f3 f4 f5 rf
    by blast
qed

text \<open>
  C4 as stated fails for a fault of \<^verbatim>\<open>save_models_json\<close>: the \<^verbatim>\<open>try\<close> block is left
  with \<^verbatim>\<open>OSError\<close>, the handler of line 154 catches it and the loop goes on, but the
  entry has its \<^verbatim>\<open>ref_text\<close> and a save was called for it.
\<close>

theorem save_fault_keeps_the_assigned_text:
  "commit_save full_disk_env (0, 0) = SaveWriteError \<and>
   snd (try_body full_disk_env (0, 0) (loaded pending_catalog)) = Some OSError \<and>
   fst (iteration full_disk_env (0, 0) (loaded pending_catalog)) = None \<and>
   entry_at (data (snd (iteration full_disk_env (0, 0) (loaded pending_catalog)))) (0, 0) =
     Some (JObj [(''name'', JStr ''Anna''), (''file'', JStr ''models/b.wav''),
                 (''ref_text'', JStr ''hola'')]) \<and>
   trace (snd (iteration full_disk_env (0, 0) (loaded pending_catalog))) =
     [Begin (0, 0), Transcribe (0, 0) ''/repo/models/b.wav'' None, Assign (0, 0) ''hola'',
      Save (assign_ref_text pending_catalog (0, 0) ''hola'') SaveWriteError] \<and>
   fst (main full_disk_env (File pending_catalog)) = Done \<and>
   disk (snd (main full_disk_env (File pending_catalog))) = Torn"
  by code_simp

section \<open>Interruption\<close>

lemma try_body_data:
  "data (fst (try_body env p s)) = data s \<or>
   (\<exists>t. data (fst (try_body env p s)) = assign_ref_text (data s) p t)"
  by (cases "commit_save env p"; cases "pause env p")
     (auto simp: try_body_def Let_def split: option.splits prod.splits sum.splits)

lemma try_body_other_entries:
  assumes "q \<noteq> p"
  shows "entry_at (data (fst (try_body env p s))) q = entry_at (data s) q"
  using try_body_data[of env p s] assms by (auto simp: entry_at_assign)

lemma process_tasks_interrupted:
  assumes "try_body env p s = (s', Some KeyboardInterrupt)" and "final_save env = SaveOk"
  shows "process_tasks env (p # ps) s =
           (Interrupted, s'\<lparr>disk := File (data s'), trace := trace s' @ [Save (data s') SaveOk]\<rparr>)"
  using assms by (simp add: iteration_def Let_def)

text \<open>
  C5, as the code has it. When \<^verbatim>\<open>KeyboardInterrupt\<close> leaves the \<^verbatim>\<open>try\<close> block of an
  entry, the loop stops there: the tasks that remain are not touched, the catalog
  is saved once more as it is in memory and, that save returning, the run ends as
  interrupted with the file equal to the memory. The turn that was interrupted
  changed no other entry. Whether the entry in flight has its \<^verbatim>\<open>ref_text\<close> depends
  on where the signal arrived: raised during the transcription it leaves the
  catalog as it was; raised during the save of line 145 or the pause of line 149 it
  comes after the assignment, and the entry has the text, which the last save
  writes.
\<close>

theorem interrupt_stops_the_loop_after_one_save:
  "(try_body env p s = (s', Some KeyboardInterrupt) \<and> final_save env = SaveOk \<longrightarrow>
      process_tasks env (p # ps) s =
        (Interrupted, s'\<lparr>disk := File (data s'), trace := trace s' @ [Save (data s') SaveOk]\<rparr>)) \<and>
   (q \<noteq> p \<longrightarrow> entry_at (data (fst (try_body env p s))) q = entry_at (data s) q) \<and>
   (entry_at (data s) p = Some m \<and> needs_ref_text m = Inr True \<and>
    py_get m ''file'' = Inr (JStr rel) \<and> rel \<noteq> [] \<and> py_get m ''language'' = Inr lang \<and>
    path_exists env (audio_file_abs env rel) \<and>
    transcribe env p (audio_file_abs env rel) (if truthy lang then Some lang else None) = WInterrupt \<longrightarrow>
      try_body env p s =
        (s\<lparr>trace := trace s @
           [Begin p, Transcribe p (audio_file_abs env rel) (if truthy lang then Some lang else None)]\<rparr>,
         Some KeyboardInterrupt)) \<and>
   (entry_at (data s) p = Some m \<and> needs_ref_text m = Inr True \<and>
    py_get m ''file'' = Inr (JStr rel) \<and> rel \<noteq> [] \<and> py_get m ''language'' = Inr lang \<and>
    path_exists env (audio_file_abs env rel) \<and>
    transcribe env p (audio_file_abs env rel) (if truthy lang then Some lang else None) = WText raw \<and>
    strip raw \<noteq> [] \<and>
    (commit_save env p = SaveInterrupt \<or> (commit_save env p = SaveOk \<and> pause env p = SleepInterrupt)) \<longrightarrow>
      snd (try_body env p s) = Some KeyboardInterrupt \<and>
      data (fst (try_body env p s)) = assign_ref_text (data s) p (strip raw) \<and>
      (\<exists>e. entry_at (data (fst (try_body env p s))) p = Some e \<and>
           py_get e ''ref_text'' = Inr (JStr (strip raw))))"
proof (intro conjI impI)
  assume "try_body env p s = (s', Some KeyboardInterrupt) \<and> final_save env = SaveOk"
  then show "process_tasks env (p # ps) s =
        (Interrupted, s'\<lparr>disk := File (data s'), trace := trace s' @ [Save (data s') SaveOk]\<rparr>)"
    using process_tasks_interrupted[of env p s s' ps] by blast
next
  assume "q \<noteq> p"
  then show "entry_at (data (fst (try_body env p s))) q = entry_at (data s) q"
    by (rule try_body_other_entries)
next
  assume a: "entry_at (data s) p = Some m \<and> needs_ref_text m = Inr True \<and>
    py_get m ''file'' = Inr (JStr rel) \<and> rel \<noteq> [] \<and> py_get m ''language'' = Inr lang \<and>
    path_exists env (audio_file_abs env rel) \<and>
    transcribe env p (audio_file_abs env rel) (if truthy lang then Some lang else None) = WInterrupt"
  let ?opts = "if truthy lang then Some lang else None"
  from a have e: "entry_at (data s) p = Some m" by simp
  from a psm_transcribed[of m rel lang env p]
  have psm: "process_single_model env p m =
      ([Transcribe p (audio_file_abs env rel) ?opts], Inl KeyboardInterrupt)" by simp
  from try_body_error[OF e psm]
  show "try_body env p s =
        (s\<lparr>trace := trace s @ [Begin p, Transcribe p (audio_file_abs env rel) ?opts]\<rparr>,
         Some KeyboardInterrupt)" by simp
next
  assume a: "entry_at (data s) p = Some m \<and> needs_ref_text m = Inr True \<and>
    py_get m ''file'' = Inr (JStr rel) \<and> rel \<noteq> [] \<and> py_get m ''language'' = Inr lang \<and>
    path_exists env (audio_file_abs env rel) \<and>
    transcribe env p (audio_file_abs env rel) (if truthy lang then Some lang else None) = WText raw \<and>
    strip raw \<noteq> [] \<and>
    (commit_save env p = SaveInterrupt \<or> (commit_save env p = SaveOk \<and> pause env p = SleepInterrupt))"
  let ?opts = "if truthy lang then Some lang else None"
  from a have e: "entry_at (data s) p = Some m" by simp
  from a psm_transcribed[of m rel lang env p]
  have psm: "process_single_model env p m =
      ([Transcribe p (audio_file_abs env rel) ?opts], Inr (True, Some (strip raw)))" by simp
  from a have c: "commit_save env p = SaveInterrupt \<or>
      (commit_save env p = SaveOk \<and> pause env p = SleepInterrupt)" by simp
  from try_body_commit[OF e psm] c
  show i: "snd (try_body env p s) = Some KeyboardInterrupt"
    and d: "data (fst (try_body env p s)) = assign_ref_text (data s) p (strip raw)"
    by (auto simp: Let_def)
  from a have dict: "is_dict m" by (auto dest: needs_ref_text_dict)
  show "\<exists>e. entry_at (data (fst (try_body env p s))) p = Some e \<and>
           py_get e ''ref_text'' = Inr (JStr (strip raw))"
    using e dict by (simp add: d entry_at_assign py_get_setitem)
qed

theorem interrupt_stops_the_loop_after_one_save_witness:
  "entry_at (data (loaded pending_catalog)) (0, 1) = Some spanish_entry \<and>
   needs_ref_text spanish_entry = Inr True \<and>
   py_get spanish_entry ''file'' = Inr (JStr ''models/x.wav'') \<and>
   ''models/x.wav'' \<noteq> [] \<and>
   py_get spanish_entry ''language'' = Inr (JStr ''es'') \<and>
   path_exists interrupted_model_env (audio_file_abs interrupted_model_env ''models/x.wav'') \<and>
   transcribe interrupted_model_env (0, 1) (audio_file_abs interrupted_model_env ''models/x.wav'')
     (if truthy (JStr ''es'') then Some (JStr ''es'') else None) = WInterrupt \<and>
   final_save interrupted_model_env = SaveOk \<and>
   process_tasks interrupted_model_env [(0, 1)] (loaded pending_catalog) =
     (Interrupted,
      (loaded pending_catalog)
        \<lparr>disk := File (data (loaded pending_catalog)),
         trace := (trace (loaded pending_catalog) @
           [Begin (0, 1),
            Transcribe (0, 1) (audio_file_abs interrupted_model_env ''models/x.wav'')
              (if truthy (JStr ''es'') then Some (JStr ''es'') else None)]) @
           [Save (data (loaded pending_catalog)) SaveOk]\<rparr>) \<and>
   entry_at (data (loaded pending_catalog)) (0, 0) = Some english_entry \<and>
   needs_ref_text english_entry = Inr True \<and>
   py_get english_entry ''file'' = Inr (JStr ''models/b.wav'') \<and>
   py_get english_entry ''language'' = Inr JNull \<and>
   path_exists interrupted_pause_env (audio_file_abs interrupted_pause_env ''models/b.wav'') \<and>
   transcribe interrupted_pause_env (0, 0) (audio_file_abs interrupted_pause_env ''models/b.wav'')
     (if truthy JNull then Some JNull else None) = WText '' hola '' \<and>
   strip '' hola '' \<noteq> [] \<and>
   commit_save interrupted_pause_env (0, 0) = SaveOk \<and>
   pause interrupted_pause_env (0, 0) = SleepInterrupt \<and>
   snd (try_body interrupted_pause_env (0, 0) (loaded pending_catalog)) = Some KeyboardInterrupt \<and>
   data (fst (try_body interrupted_pause_env (0, 0) (loaded pending_catalog))) =
     assign_ref_text (data (loaded pending_catalog)) (0, 0) (strip '' hola '') \<and>
   entry_at (data (fst (try_body interrupted_pause_env (0, 0) (loaded pending_catalog)))) (0, 1) =
     entry_at (data (loaded pending_catalog)) (0, 1)"
proof -
  let ?s = "loaded pending_catalog"
  let ?o1 = "if truthy (JStr ''es'') then Some (JStr ''es'') else None"
  let ?p1 = "audio_file_abs interrupted_model_env ''models/x.wav''"
  let ?s' = "?s\<lparr>trace := trace ?s @ [Begin (0, 1), Transcribe (0, 1) ?p1 ?o1]\<rparr>"
  have a1: "entry_at (data ?s) (0, 1) = Some spanish_entry" by code_simp
  have a2: "needs_ref_text spanish_entry = Inr True" by code_simp
  have a3: "py_get spanish_entry ''file'' = Inr (JStr ''models/x.wav'')" by code_simp
  have a4: "''models/x.wav'' \<noteq> []" by simp
  have a5: "py_get spanish_entry ''language'' = Inr (JStr ''es'')" by code_simp
  have a6: "path_exists interrupted_model_env ?p1" by code_simp
  have a7: "transcribe interrupted_model_env (0, 1) ?p1 ?o1 = WInterrupt" by code_simp
  have a8: "final_save interrupted_model_env = SaveOk" by code_simp
  have b1: "entry_at (data ?s) (0, 0) = Some english_entry" by code_simp
  have b2: "needs_ref_text english_entry = Inr True" by code_simp
  have b3: "py_get english_entry ''file'' = Inr (JStr ''models/b.wav'')" by code_simp
  have b4: "py_get english_entry ''language'' = Inr JNull" by code_simp
  have b5: "path_exists interrupted_pause_env (audio_file_abs interrupted_pause_env ''models/b.wav'')"
    by code_simp
  have b6: "transcribe interrupted_pause_env (0, 0) (audio_file_abs interrupted_pause_env ''models/b.wav'')
     (if truthy JNull then Some JNull else None) = WText '' hola ''" by code_simp
  have b7: "strip '' hola '' \<noteq> []" by code_simp
  have b8: "commit_save interrupted_pause_env (0, 0) = SaveOk" by code_simp
  have b9: "pause interrupted_pause_env (0, 0) = SleepInterrupt" by code_simp
  have b10: "''models/b.wav'' \<noteq> []" by simp
  have ne: "(0::nat, 1::nat) \<noteq> (0, 0)" by simp
  note t3 = interrupt_stops_the_loop_after_one_save[of interrupted_model_env "(0, 1)" ?s ?s' "[]"
      "(0, 0)" spanish_entry "''models/x.wav''" "JStr ''es''"]
  have tb: "try_body interrupted_model_env (0, 1) ?s = (?s', Some KeyboardInterrupt)"
    using t3 a1 a2 a3 a4 a5 a6 a7 by blast
  have pt: "process_tasks interrupted_model_env [(0, 1)] ?s =
      (Interrupted, ?s'\<lparr>disk := File (data ?s'), trace := trace ?s' @ [Save (data ?s') SaveOk]\<rparr>)"
    using t3 tb a8 by blast
  note t4 = interrupt_stops_the_loop_after_one_save[of interrupted_pause_env "(0, 0)" ?s _ "[]"
      "(0, 1)" english_entry "''models/b.wav''" JNull "'' hola ''"]
  have r4: "snd (try_body interrupted_pause_env (0, 0) ?s) = Some KeyboardInterrupt \<and>
      data (fst (try_body interrupted_pause_env (0, 0) ?s)) =
        assign_ref_text (data ?s) (0, 0) (strip '' hola '') \<and>
      entry_at (data (fst (try_body interrupted_pause_env (0, 0) ?s))) (0, 1) =
        entry_at (data ?s) (0, 1)"
    using t4 b1 b2 b3 b4 b5 b6 b7 b8 b9 b10 ne by blast
  have pt': "process_tasks interrupted_model_env [(0, 1)] ?s =
     (Interrupted,
      ?s\<lparr>disk := File (data ?s),
         trace := (trace ?s @ [Begin (0, 1), Transcribe (0, 1) ?p1 ?o1]) @ [Save (data ?s) SaveOk]\<rparr>)"
    using pt by simp
  show ?thesis
    using a1 a2 a3 a4 a5 a6 a7 a8 pt' b1 b2 b3 b4 b5 b6 b7 b8 b9 r4 by blast
qed

text \<open>
  C5 as stated fails: a signal that arrives during the pause of the first entry
  stops the run with that entry's \<^verbatim>\<open>ref_text\<close> set, in memory and in the file.
\<close>

theorem interrupt_during_the_pause_keeps_the_text:
  "pause interrupted_pause_env (0, 0) = SleepInterrupt \<and>
   snd (try_body interrupted_pause_env (0, 0) (loaded pending_catalog)) = Some KeyboardInterrupt \<and>
   main interrupted_pause_env (File pending_catalog) =
     (Interrupted,
      \<lparr>data = assign_ref_text pending_catalog (0, 0) ''hola'',
       disk = File (assign_ref_text pending_catalog (0, 0) ''hola''),
       updated_count = 1,
       trace = [Begin (0, 0), Transcribe (0, 0) ''/repo/models/b.wav'' None, Assign (0, 0) ''hola'',
                Save (assign_ref_text pending_catalog (0, 0) ''hola'') SaveOk, Pause,
                Save (assign_ref_text pending_catalog (0, 0) ''hola'') SaveOk]\<rparr>) \<and>
   entry_at (assign_ref_text pending_catalog (0, 0) ''hola'') (0, 0) =
     Some (JObj [(''name'', JStr ''Anna''), (''file'', JStr ''models/b.wav''),
                 (''ref_text'', JStr ''hola'')])"
  by code_simp

end
